theory Spec2Isabelle
  imports Complex_Main "HOL-Library.Word" "HOL-Library.Signed_Division"
    "HOL-Library.Monad_Syntax"
begin

section \<open>The decoded-audio frame queue of ffmedia.c\<close>

text \<open>
  An \<^verbatim>\<open>AVFrame *\<close> is an address or \<^verbatim>\<open>NULL\<close> (\<open>None\<close>). The frames that are
  allocated live in a store from addresses to frames; a frame that was freed, or never
  allocated, has no entry, and dereferencing it is a memory fault (\<open>None\<close> as the result
  of the operation). Of an \<^verbatim>\<open>AVFrame\<close> the program reads \<^verbatim>\<open>nb_samples\<close> and the
  plane \<^verbatim>\<open>data[0]\<close>, and it keeps the queue's link in \<^verbatim>\<open>opaque\<close>.
\<close>

type_synonym byte = "8 word"

type_synonym frame_ptr = "nat option"

record AVFrame =
  nb_samples :: int
  data0 :: "byte list"
  opaque :: frame_ptr

type_synonym frame_store = "nat \<Rightarrow> AVFrame option"

record FrameQueue =
  first :: frame_ptr
  last_frame :: frame_ptr

text \<open>\<^verbatim>\<open>p->opaque = q\<close>: a fault when \<open>p\<close> is not an allocated frame.\<close>

definition set_opaque :: "frame_store \<Rightarrow> frame_ptr \<Rightarrow> frame_ptr \<Rightarrow> frame_store option" where
  "set_opaque h p q =
     (case p of
        None \<Rightarrow> None
      | Some a \<Rightarrow> (case h a of
                     None \<Rightarrow> None
                   | Some f \<Rightarrow> Some (h(a \<mapsto> f\<lparr>opaque := q\<rparr>))))"

text \<open>
  \<^verbatim>\<open>enqueue_frame\<close> (lines 238-247): the frame's link is cleared, then the frame is
  hung behind \<^verbatim>\<open>fq->last\<close>, or becomes both ends of an empty queue.
\<close>

definition enqueue_frame ::
  "frame_store \<Rightarrow> FrameQueue \<Rightarrow> frame_ptr \<Rightarrow> (frame_store \<times> FrameQueue) option" where
  "enqueue_frame h fq frame =
     (case set_opaque h frame None of
        None \<Rightarrow> None
      | Some h1 \<Rightarrow>
          if first fq \<noteq> None then
            (case set_opaque h1 (last_frame fq) frame of
               None \<Rightarrow> None
             | Some h2 \<Rightarrow> Some (h2, fq\<lparr>last_frame := frame\<rparr>))
          else Some (h1, fq\<lparr>first := frame, last_frame := frame\<rparr>))"

text \<open>
  \<^verbatim>\<open>dequeue_frame\<close> (lines 249-262): \<^verbatim>\<open>NULL\<close> from an empty queue, which is left as it
  is; otherwise the first frame, and \<^verbatim>\<open>first\<close> moves along that frame's link.
\<close>

definition dequeue_frame ::
  "frame_store \<Rightarrow> FrameQueue \<Rightarrow> (frame_ptr \<times> FrameQueue) option" where
  "dequeue_frame h fq =
     (case first fq of
        None \<Rightarrow> Some (None, fq)
      | Some a \<Rightarrow>
          (case h a of
             None \<Rightarrow> None
           | Some f \<Rightarrow>
               let fq1 = fq\<lparr>first := opaque f\<rparr>;
                   fq2 = (if first fq1 = None then fq1\<lparr>last_frame := None\<rparr> else fq1)
               in Some (Some a, fq2)))"

text \<open>Enqueueing a sequence of frames, and dequeueing \<open>n\<close> times in succession.\<close>

fun enqueue_frames ::
  "frame_store \<Rightarrow> FrameQueue \<Rightarrow> frame_ptr list \<Rightarrow> (frame_store \<times> FrameQueue) option" where
  "enqueue_frames h fq [] = Some (h, fq)"
| "enqueue_frames h fq (p # ps) =
     (case enqueue_frame h fq p of
        None \<Rightarrow> None
      | Some (h1, fq1) \<Rightarrow> enqueue_frames h1 fq1 ps)"

fun dequeue_frames ::
  "frame_store \<Rightarrow> FrameQueue \<Rightarrow> nat \<Rightarrow> (frame_ptr list \<times> FrameQueue) option" where
  "dequeue_frames h fq 0 = Some ([], fq)"
| "dequeue_frames h fq (Suc n) =
     (case dequeue_frame h fq of
        None \<Rightarrow> None
      | Some (p, fq1) \<Rightarrow>
          (case dequeue_frames h fq1 n of
             None \<Rightarrow> None
           | Some (ps, fq2) \<Rightarrow> Some (p # ps, fq2)))"

definition empty_queue :: FrameQueue where
  "empty_queue = \<lparr>first = None, last_frame = None\<rparr>"

text \<open>
  The frames linked from a pointer, in order: \<open>linked h p as\<close> says that following
  \<^verbatim>\<open>opaque\<close> from \<open>p\<close> visits exactly the allocated frames \<open>as\<close> and ends in \<^verbatim>\<open>NULL\<close>.
  \<open>queue_of h fq as\<close> adds what the queue's \<^verbatim>\<open>last\<close> pointer must be.
\<close>

primrec linked :: "frame_store \<Rightarrow> frame_ptr \<Rightarrow> nat list \<Rightarrow> bool" where
  "linked h p [] = (p = None)"
| "linked h p (a # as) =
     (p = Some a \<and> (case h a of None \<Rightarrow> False | Some f \<Rightarrow> linked h (opaque f) as))"

definition queue_of :: "frame_store \<Rightarrow> FrameQueue \<Rightarrow> nat list \<Rightarrow> bool" where
  "queue_of h fq as =
     (linked h (first fq) as \<and> distinct as \<and>
      (if as = [] then True else last_frame fq = Some (last as)))"


text \<open>
  \<^verbatim>\<open>av_frame_free(&p)\<close>: nothing for \<^verbatim>\<open>NULL\<close>; otherwise the frame leaves the store
  (the caller's pointer is set to \<^verbatim>\<open>NULL\<close> where the function is used). Freeing an
  address that holds no frame is a fault.
\<close>

definition av_frame_free :: "frame_store \<Rightarrow> frame_ptr \<Rightarrow> frame_store option" where
  "av_frame_free h p =
     (case p of
        None \<Rightarrow> Some h
      | Some a \<Rightarrow> if h a = None then None else Some (h(a := None)))"

section \<open>Packets and the shared state\<close>

text \<open>
  Of an \<^verbatim>\<open>AVPacket\<close> the program reads \<^verbatim>\<open>data\<close>, \<^verbatim>\<open>size\<close> and \<^verbatim>\<open>stream_index\<close>.
  The payload pointer is the payload or \<^verbatim>\<open>NULL\<close>.

  A \<^verbatim>\<open>PacketQueue\<close> is a list of nodes that \<^verbatim>\<open>enqueue_packet\<close> allocates itself
  and \<^verbatim>\<open>dequeue_packet\<close> frees, holding copies of the packets; no node is ever shared,
  so the queue is the list of its packets, first to last.
\<close>

record AVPacket =
  data :: "byte list option"
  size_pkt :: int
  stream_index :: int

type_synonym PacketQueue = "AVPacket list"

text \<open>
  \<^verbatim>\<open>MediaState\<close> (lines 102-191). The flags are C \<^verbatim>\<open>int\<close>s that only ever hold 0 or 1.
  \<open>ctx\<close> stands for the demuxer: the packets that \<^verbatim>\<open>av_read_frame\<close> has yet to
  return, a finite list, after which it reports the end of the file. The two codec
  contexts are present or \<^verbatim>\<open>NULL\<close>. \<^verbatim>\<open>skip\<close> and every other \<^verbatim>\<open>double\<close> are read as
  real numbers, that is with exact arithmetic. A C \<^verbatim>\<open>int\<close> is read as an integer: where
  a signed computation would leave the range of \<^verbatim>\<open>int\<close>, C defines no result. The two
  \<^verbatim>\<open>unsigned int\<close> fields are words of 32 bits, which wrap around. The mutex and the
  condition variable appear as the events on them.
\<close>

record MediaState =
  filename :: string
  started :: bool
  ready :: bool
  needs_decode :: bool
  quit :: bool
  skip :: real
  audio_finished :: bool
  video_finished :: bool
  video_stream :: int
  audio_stream :: int
  ctx :: "AVPacket list"
  video_context :: bool
  audio_context :: bool
  video_packet_queue :: PacketQueue
  audio_packet_queue :: PacketQueue
  audio_queue :: FrameQueue
  audio_queue_samples :: int
  audio_queue_target_seconds :: int
  audio_decode_frame :: frame_ptr
  audio_out_frame :: frame_ptr
  audio_out_index :: int
  audio_duration :: "32 word"
  audio_read_samples :: "32 word"
  video_decode_frame :: frame_ptr

datatype event = SDL_LockMutex | SDL_UnlockMutex | SDL_CondWait | SDL_CondBroadcast
  | SDL_CreateThread | SDL_DetachThread

definition BPS :: int where
  "BPS = 4"

text \<open>\<^verbatim>\<open>AV_TIME_BASE\<close> of libavutil: the container's duration is in microseconds.\<close>

definition AV_TIME_BASE :: int where
  "AV_TIME_BASE = 1000000"

section \<open>The demuxer: \<^verbatim>\<open>read_packet\<close>\<close>

definition enqueue_packet :: "PacketQueue \<Rightarrow> AVPacket \<Rightarrow> PacketQueue" where
  "enqueue_packet pq pkt = pq @ [pkt]"

text \<open>\<^verbatim>\<open>dequeue_packet\<close> (lines 279-297) returns 0 and leaves \<^verbatim>\<open>*pkt\<close> alone on an empty queue.\<close>

definition dequeue_packet :: "PacketQueue \<Rightarrow> AVPacket \<Rightarrow> int \<times> AVPacket \<times> PacketQueue" where
  "dequeue_packet pq pkt = (case pq of [] \<Rightarrow> (0, pkt, pq) | p # rest \<Rightarrow> (1, p, rest))"

text \<open>\<^verbatim>\<open>av_read_frame\<close>: the next packet of the container, or failure at its end.\<close>

definition av_read_frame :: "AVPacket list \<Rightarrow> (AVPacket \<times> AVPacket list) option" where
  "av_read_frame c = (case c of [] \<Rightarrow> None | p # rest \<Rightarrow> Some (p, rest))"

text \<open>
  The \<^verbatim>\<open>PacketQueue *pq\<close> that \<^verbatim>\<open>read_packet\<close> receives points into the state itself:
  \<^verbatim>\<open>&ms->audio_packet_queue\<close> in \<^verbatim>\<open>decode_audio\<close>, \<^verbatim>\<open>&ms->video_packet_queue\<close> in
  \<^verbatim>\<open>decode_video_frame\<close>. So a packet routed to that queue is seen through \<open>pq\<close>.
\<close>

datatype queue_ptr = Video_packet_queue | Audio_packet_queue

definition deref :: "MediaState \<Rightarrow> queue_ptr \<Rightarrow> PacketQueue" where
  "deref ms pq = (case pq of Video_packet_queue \<Rightarrow> video_packet_queue ms
                           | Audio_packet_queue \<Rightarrow> audio_packet_queue ms)"

definition assign :: "MediaState \<Rightarrow> queue_ptr \<Rightarrow> PacketQueue \<Rightarrow> MediaState" where
  "assign ms pq q = (case pq of Video_packet_queue \<Rightarrow> ms\<lparr>video_packet_queue := q\<rparr>
                              | Audio_packet_queue \<Rightarrow> ms\<lparr>audio_packet_queue := q\<rparr>)"

text \<open>The routing of one packet read from the container (lines 328-334).\<close>

definition route_packet :: "MediaState \<Rightarrow> AVPacket \<Rightarrow> MediaState" where
  "route_packet ms scratch =
     (if stream_index scratch = video_stream ms then
        ms\<lparr>video_packet_queue := enqueue_packet (video_packet_queue ms) scratch\<rparr>
      else if stream_index scratch = audio_stream ms then
        ms\<lparr>audio_packet_queue := enqueue_packet (audio_packet_queue ms) scratch\<rparr>
      else ms)"

text \<open>
  \<^verbatim>\<open>read_packet\<close> (lines 312-338): the result is the returned \<^verbatim>\<open>int\<close>, the packet left
  in \<^verbatim>\<open>*pkt\<close>, and the state. Each turn of the loop that does not return takes one
  packet from the container.
\<close>

function read_packet :: "MediaState \<Rightarrow> queue_ptr \<Rightarrow> AVPacket \<Rightarrow> int \<times> AVPacket \<times> MediaState" where
  "read_packet ms pq pkt =
     (case dequeue_packet (deref ms pq) pkt of
        (r, pkt1, q1) \<Rightarrow>
          if r \<noteq> 0 then (1, pkt1, assign ms pq q1)
          else
            (case av_read_frame (ctx ms) of
               None \<Rightarrow> (0, pkt1\<lparr>data := None, size_pkt := 0\<rparr>, ms)
             | Some (scratch, rest) \<Rightarrow> read_packet (route_packet (ms\<lparr>ctx := rest\<rparr>) scratch) pq pkt1))"
  by pat_completeness auto
termination
  by (relation "measure (\<lambda>(ms, pq, pkt). length (ctx ms))")
     (auto simp: av_read_frame_def route_packet_def split: list.splits)

declare read_packet.simps [simp del]


section \<open>The audio decoder's skip policy\<close>

text \<open>
  The conversion \<^verbatim>\<open>(int) x\<close> of a \<^verbatim>\<open>double\<close> drops the fraction, towards zero. (A value
  outside the range of \<^verbatim>\<open>int\<close> has no defined conversion in C.)
\<close>

definition int_of_double :: "real \<Rightarrow> int" where
  "int_of_double x = (if 0 \<le> x then \<lfloor>x\<rfloor> else \<lceil>x\<rceil>)"

text \<open>
  Lines 437-460 of \<^verbatim>\<open>decode_audio\<close>, run for each frame that the codec has decoded and
  \<^verbatim>\<open>swr_convert_frame\<close> has converted: \<open>pts\<close> is the decoded frame's best-effort
  timestamp, \<open>timebase\<close> the stream's time base, \<open>converted_frame\<close> the new frame in the
  output format. The global \<^verbatim>\<open>audio_sample_rate\<close> is a parameter. The quotient by a
  sample rate of 0 is infinite or undefined as a \<^verbatim>\<open>double\<close>, which the real numbers do
  not show; the rate is positive wherever this definition is used.
\<close>

definition decode_audio_skip_policy ::
  "int \<Rightarrow> real \<Rightarrow> int \<Rightarrow> frame_store \<Rightarrow> MediaState \<Rightarrow> frame_ptr
     \<Rightarrow> (frame_store \<times> MediaState) option" where
  "decode_audio_skip_policy audio_sample_rate timebase pts h ms converted_frame =
     (case converted_frame of
        None \<Rightarrow> None
      | Some a \<Rightarrow> do {
          f \<leftarrow> h a;
          let start = real_of_int pts * timebase;
          let end_time = start + 1.0 * real_of_int (nb_samples f) / real_of_int audio_sample_rate;
          if start \<ge> skip ms then do {
            let ms1 = ms\<lparr>audio_queue_samples := audio_queue_samples ms + nb_samples f\<rparr>;
            (h1, fq1) \<leftarrow> enqueue_frame h (audio_queue ms1) converted_frame;
            Some (h1, ms1\<lparr>audio_queue := fq1\<rparr>)
          } else if end_time < skip ms then do {
            h1 \<leftarrow> av_frame_free h converted_frame;
            Some (h1, ms)
          } else
            Some (h, ms\<lparr>audio_out_frame := converted_frame,
                        audio_out_index :=
                          BPS * int_of_double ((skip ms - start) * real_of_int audio_sample_rate)\<rparr>)
        })"

section \<open>The pull operation: \<^verbatim>\<open>media_read_audio\<close>\<close>

text \<open>
  \<^verbatim>\<open>memcpy(stream, &f->data[0][i], n)\<close>: the \<open>n\<close> bytes from offset \<open>i\<close> of the plane.
  A negative count (a huge \<^verbatim>\<open>size_t\<close>) or a range that leaves the plane is a fault.
\<close>

definition memcpy :: "byte list \<Rightarrow> int \<Rightarrow> int \<Rightarrow> byte list option" where
  "memcpy d i n =
     (if 0 \<le> i \<and> 0 \<le> n \<and> i + n \<le> int (length d)
      then Some (take (nat n) (drop (nat i) d)) else None)"

text \<open>
  One turn of the fill loop (lines 672-709), entered with \<^verbatim>\<open>len\<close> not 0. The first
  component of the result says whether the loop was left by \<^verbatim>\<open>break\<close>. \<open>stream\<close> is
  what has been written to the caller's buffer so far: each \<^verbatim>\<open>memcpy\<close> writes where the
  one before stopped.
\<close>

definition fill_iteration ::
  "frame_store \<Rightarrow> MediaState \<Rightarrow> int \<Rightarrow> int \<Rightarrow> byte list
     \<Rightarrow> (bool \<times> frame_store \<times> MediaState \<times> int \<times> int \<times> byte list) option" where
  "fill_iteration h ms len rv stream = do {
     ms1 \<leftarrow> (if audio_out_frame ms = None then do {
                (p, fq) \<leftarrow> dequeue_frame h (audio_queue ms);
                Some (ms\<lparr>audio_queue := fq, audio_out_frame := p, audio_out_index := 0\<rparr>)
              } else Some ms);
     case audio_out_frame ms1 of
       None \<Rightarrow> Some (True, h, ms1, len, rv, stream)
     | Some a \<Rightarrow> do {
         f \<leftarrow> h a;
         let avail = nb_samples f * BPS - audio_out_index ms1;
         let count = (if len > avail then avail else len);
         bytes \<leftarrow> memcpy (data0 f) (audio_out_index ms1) count;
         let ms2 = ms1\<lparr>audio_out_index := audio_out_index ms1 + count,
                       audio_read_samples := audio_read_samples ms1 + word_of_int (count sdiv BPS),
                       audio_queue_samples := audio_queue_samples ms1 - count sdiv BPS\<rparr>;
         if audio_out_index ms2 \<ge> nb_samples f * BPS then do {
           h1 \<leftarrow> av_frame_free h (audio_out_frame ms2);
           Some (False, h1, ms2\<lparr>audio_out_frame := None, audio_out_index := 0\<rparr>,
                 len - count, rv + count, stream @ bytes)
         } else
           Some (False, h, ms2, len - count, rv + count, stream @ bytes)
       }
   }"

text \<open>
  The loop itself. It has no bound of its own: it ends when \<^verbatim>\<open>len\<close> reaches 0 or the
  queue runs out of frames. \<open>None\<close> is a fault or a loop that does not end.
\<close>

partial_function (option) fill_loop ::
  "frame_store \<Rightarrow> MediaState \<Rightarrow> int \<Rightarrow> int \<Rightarrow> byte list
     \<Rightarrow> (frame_store \<times> MediaState \<times> int \<times> byte list) option" where
  "fill_loop h ms len rv stream =
     (if len = 0 then Some (h, ms, rv, stream)
      else do {
        (brk, h1, ms1, len1, rv1, stream1) \<leftarrow> fill_iteration h ms len rv stream;
        if brk then Some (h1, ms1, rv1, stream1)
        else fill_loop h1 ms1 len1 rv1 stream1
      })"

text \<open>
  The clamp of lines 658-670. \<^verbatim>\<open>remaining\<close> is an \<^verbatim>\<open>unsigned int\<close>, so the difference
  and the product wrap at 32 bits, \<^verbatim>\<open>len > remaining\<close> compares \<^verbatim>\<open>len\<close> as unsigned,
  and \<^verbatim>\<open>len = remaining\<close> reads the 32 bits back as an \<^verbatim>\<open>int\<close>.
\<close>

definition clamp_len :: "MediaState \<Rightarrow> int \<Rightarrow> int \<times> MediaState" where
  "clamp_len ms len =
     (let ms0 = ms\<lparr>audio_duration := 0\<rparr> in
      if audio_duration ms0 \<noteq> 0 then
        let remaining = (audio_duration ms0 - audio_read_samples ms0) * (word_of_int BPS :: 32 word);
            len1 = (if (word_of_int len :: 32 word) > remaining then sint remaining else len);
            ms1 = (if remaining = 0 then ms0\<lparr>audio_finished := True\<rparr> else ms0)
        in (len1, ms1)
      else (len, ms0))"

text \<open>
  \<^verbatim>\<open>media_read_audio\<close> (lines 649-720): the returned \<^verbatim>\<open>rv\<close>, the bytes written to
  \<^verbatim>\<open>stream\<close>, the frames, the state, and the calls on the mutex and the condition
  variable in order. The function first waits on the condition variable until
  \<^verbatim>\<open>ready\<close>; the definition describes the call from the moment it holds the lock with
  \<^verbatim>\<open>ready\<close> set, and on a state that is not ready, with nobody to set the flag, the call
  does not return (\<open>None\<close>).
\<close>

definition media_read_audio ::
  "frame_store \<Rightarrow> MediaState \<Rightarrow> int
     \<Rightarrow> (int \<times> byte list \<times> frame_store \<times> MediaState \<times> event list) option" where
  "media_read_audio h ms len =
     (if \<not> ready ms then None
      else
        case clamp_len ms len of
          (len1, ms1) \<Rightarrow> do {
            (h2, ms2, rv, stream) \<leftarrow> fill_loop h ms1 len1 0 [];
            if rv \<noteq> 0 then
              Some (rv, stream, h2, ms2\<lparr>needs_decode := True\<rparr>,
                    [SDL_LockMutex, SDL_CondBroadcast, SDL_UnlockMutex])
            else
              Some (rv, stream, h2, ms2, [SDL_LockMutex, SDL_UnlockMutex])
          })"


section \<open>Opening, starting and closing a handle\<close>

text \<open>\<^verbatim>\<open>media_open\<close> (lines 735-747): \<^verbatim>\<open>av_calloc\<close> gives a state of zeros.\<close>

definition media_open :: "string \<Rightarrow> MediaState" where
  "media_open name =
     \<lparr>filename = name, started = False, ready = False, needs_decode = False, quit = False,
      skip = 0, audio_finished = False, video_finished = False,
      video_stream = 0, audio_stream = 0, ctx = [],
      video_context = False, audio_context = False,
      video_packet_queue = [], audio_packet_queue = [],
      audio_queue = \<lparr>first = None, last_frame = None\<rparr>,
      audio_queue_samples = 0, audio_queue_target_seconds = 2,
      audio_decode_frame = None, audio_out_frame = None, audio_out_index = 0,
      audio_duration = 0, audio_read_samples = 0, video_decode_frame = None\<rparr>"

text \<open>
  \<^verbatim>\<open>media_start\<close> (lines 722-732). Whether \<^verbatim>\<open>SDL_CreateThread\<close> returns a thread is
  not the program's to decide: \<open>t\<close> says whether it did.
\<close>

definition media_start :: "bool \<Rightarrow> MediaState \<Rightarrow> MediaState \<times> event list" where
  "media_start t ms =
     (if t then (ms\<lparr>started := True\<rparr>, [SDL_CreateThread, SDL_DetachThread])
      else (ms, [SDL_CreateThread]))"

text \<open>
  The loop of \<^verbatim>\<open>deallocate\<close> that empties the frame queue (lines 209-217). Like the
  fill loop it follows the links of the frames, and has no bound of its own.
\<close>

partial_function (option) free_frame_queue ::
  "frame_store \<Rightarrow> FrameQueue \<Rightarrow> (frame_store \<times> FrameQueue) option" where
  "free_frame_queue h fq = do {
     (f, fq1) \<leftarrow> dequeue_frame h fq;
     if f = None then Some (h, fq1)
     else do {
       h1 \<leftarrow> av_frame_free h f;
       free_frame_queue h1 fq1
     }
   }"

text \<open>
  \<^verbatim>\<open>deallocate\<close> (lines 196-236) releases every frame the state points to, then the
  packets, the codec contexts, the container, the mutex, the condition variable, the
  byte source, the file name and the state itself. The model holds all but the frames
  by value inside the state, so what is left after \<^verbatim>\<open>deallocate\<close> is the frame store,
  and no state.
\<close>

definition deallocate :: "frame_store \<Rightarrow> MediaState \<Rightarrow> frame_store option" where
  "deallocate h ms = do {
     h1 \<leftarrow> av_frame_free h (video_decode_frame ms);
     h2 \<leftarrow> av_frame_free h1 (audio_decode_frame ms);
     h3 \<leftarrow> av_frame_free h2 (audio_out_frame ms);
     (h4, fq) \<leftarrow> free_frame_queue h3 (audio_queue ms);
     Some h4
   }"

text \<open>
  \<^verbatim>\<open>media_close\<close> (lines 768-781): the frames, the state if there still is one, and
  the calls on the mutex and the condition variable.
\<close>

definition media_close ::
  "frame_store \<Rightarrow> MediaState \<Rightarrow> (frame_store \<times> MediaState option \<times> event list) option" where
  "media_close h ms =
     (if \<not> started ms then do {
        h1 \<leftarrow> deallocate h ms;
        Some (h1, None, [])
      } else
        Some (h, Some (ms\<lparr>quit := True\<rparr>),
              [SDL_LockMutex, SDL_CondBroadcast, SDL_UnlockMutex]))"

section \<open>Duration inference in \<^verbatim>\<open>decode_thread\<close>\<close>

datatype AVDurationEstimationMethod =
  AVFMT_DURATION_FROM_PTS | AVFMT_DURATION_FROM_STREAM | AVFMT_DURATION_FROM_BITRATE

text \<open>
  Lines 581-591. \<open>method\<close> is what \<^verbatim>\<open>av_fmt_ctx_get_duration_estimation_method\<close>
  returns and \<open>ctx_duration\<close> the \<^verbatim>\<open>int64_t\<close> field \<^verbatim>\<open>ctx->duration\<close>. The product is a
  \<^verbatim>\<open>long long\<close>, kept to 64 bits; the quotient is C's, towards zero; the cast to
  \<^verbatim>\<open>unsigned int\<close> keeps the low 32 bits. In the test, \<^verbatim>\<open>audio_duration\<close> is unsigned,
  and the \<^verbatim>\<open>int\<close> \<^verbatim>\<open>3600 * audio_sample_rate\<close> is converted to unsigned to be compared.
\<close>

definition infer_audio_duration ::
  "AVDurationEstimationMethod \<Rightarrow> int \<Rightarrow> int \<Rightarrow> MediaState \<Rightarrow> MediaState" where
  "infer_audio_duration method ctx_duration audio_sample_rate ms =
     (if method \<noteq> AVFMT_DURATION_FROM_BITRATE then
        let duration = signed_take_bit 63 (signed_take_bit 63 ctx_duration * audio_sample_rate);
            ms1 = ms\<lparr>audio_duration := word_of_int (duration sdiv AV_TIME_BASE)\<rparr>
        in if audio_duration ms1 < 0
              \<or> audio_duration ms1 > word_of_int (signed_take_bit 31 (3600 * audio_sample_rate))
           then ms1\<lparr>audio_duration := 0\<rparr> else ms1
      else ms)"

section \<open>Well-formed states\<close>

text \<open>
  What the program relies on when it reads a frame: its sample count is not negative and
  its plane holds at least \<^verbatim>\<open>BPS\<close> bytes for each sample (stereo, 16 bits,
  interleaved; the library may pad the plane).
\<close>

definition frame_ok :: "frame_store \<Rightarrow> nat \<Rightarrow> bool" where
  "frame_ok h a =
     (case h a of
        None \<Rightarrow> False
      | Some f \<Rightarrow> 0 \<le> nb_samples f \<and> nb_samples f * BPS \<le> int (length (data0 f)))"

definition samples_at :: "frame_store \<Rightarrow> nat \<Rightarrow> int" where
  "samples_at h a = (case h a of None \<Rightarrow> 0 | Some f \<Rightarrow> nb_samples f)"

text \<open>
  \<open>pcm_ok h ms as\<close>: the frame queue holds the frames \<open>as\<close>, all well formed; the frame
  being read, if there is one, is well formed, is not in the queue, and the index into
  it lies within its plane.
\<close>

definition pcm_ok :: "frame_store \<Rightarrow> MediaState \<Rightarrow> nat list \<Rightarrow> bool" where
  "pcm_ok h ms as =
     (queue_of h (audio_queue ms) as \<and> list_all (frame_ok h) as \<and>
      (case audio_out_frame ms of
         None \<Rightarrow> True
       | Some a \<Rightarrow> frame_ok h a \<and> a \<notin> set as \<and>
                   0 \<le> audio_out_index ms \<and> audio_out_index ms \<le> samples_at h a * BPS))"

text \<open>
  The accounting of queued samples: \<^verbatim>\<open>audio_queue_samples\<close> is the number of samples in
  the queued frames \<open>as\<close> plus what is left to read of \<^verbatim>\<open>audio_out_frame\<close>.
\<close>

definition queue_accounting :: "frame_store \<Rightarrow> MediaState \<Rightarrow> nat list \<Rightarrow> bool" where
  "queue_accounting h ms as =
     (audio_queue_samples ms =
        sum_list (map (samples_at h) as) +
        (case audio_out_frame ms of
           None \<Rightarrow> 0
         | Some a \<Rightarrow> samples_at h a - audio_out_index ms sdiv BPS))"


text \<open>The frames still to be read: those in the queue and the one being read.\<close>

definition pending :: "MediaState \<Rightarrow> nat list \<Rightarrow> nat" where
  "pending ms as = length as + (if audio_out_frame ms = None then 0 else 1)"

text \<open>The queue that \<^verbatim>\<open>read_packet\<close> was not asked for, and the stream that belongs to a queue.\<close>

definition other_queue :: "queue_ptr \<Rightarrow> queue_ptr" where
  "other_queue pq = (case pq of Video_packet_queue \<Rightarrow> Audio_packet_queue
                              | Audio_packet_queue \<Rightarrow> Video_packet_queue)"

definition selected_stream :: "MediaState \<Rightarrow> queue_ptr \<Rightarrow> int" where
  "selected_stream ms pq = (case pq of Video_packet_queue \<Rightarrow> video_stream ms
                                     | Audio_packet_queue \<Rightarrow> audio_stream ms)"

section \<open>The threads and the \<^verbatim>\<open>ready\<close> flag\<close>

text \<open>
  Three threads work on one handle: the caller (\<^verbatim>\<open>media_start\<close>, \<^verbatim>\<open>media_close\<close>), the
  decode thread (\<^verbatim>\<open>decode_thread\<close>) and the consumer (\<^verbatim>\<open>media_read_audio\<close>). Each has
  a position in its code; a step of the system is a step of one of them. Everything a
  thread does between \<^verbatim>\<open>SDL_LockMutex\<close> and the next \<^verbatim>\<open>SDL_UnlockMutex\<close> or
  \<^verbatim>\<open>SDL_CondWait\<close> is one step, since no other thread can hold the mutex meanwhile.

  The positions of the decode thread: not created; the set-up of lines 540-595; the test
  of \<^verbatim>\<open>quit\<close> in line 597; the decoding of lines 599-605; the locked block of lines
  607-620, and asleep or woken in its \<^verbatim>\<open>SDL_CondWait\<close>; the locked block of lines
  629-641, and asleep or woken in its \<^verbatim>\<open>SDL_CondWait\<close>; \<^verbatim>\<open>deallocate\<close>; returned.
  A position inside the loop, and the entry to the exit path, are each reached both before
  and after the locked block of lines 607-620 has run for the first time: the position
  says which (\<open>True\<close>: it has run).
\<close>

datatype decoder_pc = Not_created | Setup | Loop_test bool | Decode bool | Sync bool
  | Sync_wait | Sync_woken | Finish bool | Final_wait | Final_woken | Dealloc | Dead

text \<open>
  Whether the decode thread, at a position, has been through one of its two locked
  blocks.
\<close>

fun past_locked_block :: "decoder_pc \<Rightarrow> bool" where
  "past_locked_block Not_created = False"
| "past_locked_block Setup = False"
| "past_locked_block (Loop_test b) = b"
| "past_locked_block (Decode b) = b"
| "past_locked_block (Sync b) = b"
| "past_locked_block (Finish b) = b"
| "past_locked_block Sync_wait = True"
| "past_locked_block Sync_woken = True"
| "past_locked_block Final_wait = True"
| "past_locked_block Final_woken = True"
| "past_locked_block Dealloc = True"
| "past_locked_block Dead = True"

text \<open>
  The consumer is outside \<^verbatim>\<open>media_read_audio\<close>, or asleep or woken in the
  \<^verbatim>\<open>SDL_CondWait\<close> of line 653. The caller has opened the handle, has created the thread
  but not yet set \<^verbatim>\<open>started\<close> (between lines 726 and 729), has started it, or has closed
  it.
\<close>

datatype consumer_pc = Idle | Ready_wait | Ready_woken

datatype caller_pc = Opened | Created | Started | Closed

text \<open>
  The system: the frames, the shared state and whether it has been deallocated, the three
  positions, and two observations that the program does not store: how often the
  assignment \<^verbatim>\<open>ms->ready = 1\<close> has run, and whether the condition variable has been
  broadcast while \<^verbatim>\<open>ready\<close> was set.
\<close>

record system =
  frames :: frame_store
  state :: MediaState
  freed :: bool
  decoder :: decoder_pc
  consumer :: consumer_pc
  caller :: caller_pc
  ready_writes :: nat
  announced :: bool

text \<open>
  The set-up and the decoding call into the codec library. Of them the model keeps which
  fields of the state they assign: the set-up the container, the stream indexes, the
  codec contexts and \<^verbatim>\<open>audio_duration\<close>; \<^verbatim>\<open>decode_audio\<close>, \<^verbatim>\<open>decode_video\<close> and
  \<^verbatim>\<open>read_packet\<close> the two \<^verbatim>\<open>finished\<close> flags, the container, the packet queues, the
  frame queue and its sample count, the decode frames, and \<^verbatim>\<open>audio_out_frame\<close> with its
  index. Every other field is as before.
\<close>

definition setup_writes :: "MediaState \<Rightarrow> MediaState \<Rightarrow> bool" where
  "setup_writes ms ms' =
     (ms' = ms\<lparr>ctx := ctx ms', video_stream := video_stream ms', audio_stream := audio_stream ms',
                video_context := video_context ms', audio_context := audio_context ms',
                audio_duration := audio_duration ms'\<rparr>)"

definition decode_writes :: "MediaState \<Rightarrow> MediaState \<Rightarrow> bool" where
  "decode_writes ms ms' =
     (ms' = ms\<lparr>audio_finished := audio_finished ms', video_finished := video_finished ms',
                ctx := ctx ms', video_packet_queue := video_packet_queue ms',
                audio_packet_queue := audio_packet_queue ms', audio_queue := audio_queue ms',
                audio_queue_samples := audio_queue_samples ms',
                audio_decode_frame := audio_decode_frame ms',
                audio_out_frame := audio_out_frame ms', audio_out_index := audio_out_index ms',
                video_decode_frame := video_decode_frame ms'\<rparr>)"

text \<open>\<^verbatim>\<open>SDL_CondBroadcast\<close> wakes every thread that is asleep on the condition variable.\<close>

definition wake_all :: "system \<Rightarrow> system" where
  "wake_all s =
     s\<lparr>decoder := (case decoder s of Sync_wait \<Rightarrow> Sync_woken | Final_wait \<Rightarrow> Final_woken
                     | pc \<Rightarrow> pc),
       consumer := (case consumer s of Ready_wait \<Rightarrow> Ready_woken | pc \<Rightarrow> pc),
       announced := (announced s \<or> ready (state s))\<rparr>"

text \<open>
  Lines 609-612 and again 632-635:
  \<^verbatim>\<open>if (!ms->ready) { ms->ready = 1; SDL_CondBroadcast(ms->cond); }\<close>
\<close>

definition signal_ready :: "system \<Rightarrow> system" where
  "signal_ready s =
     (if \<not> ready (state s)
      then wake_all (s\<lparr>state := (state s)\<lparr>ready := True\<rparr>, ready_writes := Suc (ready_writes s)\<rparr>)
      else s)"

text \<open>The broadcast of \<^verbatim>\<open>media_close\<close> and \<^verbatim>\<open>media_read_audio\<close>, when their events hold one.\<close>

definition signalled :: "event list \<Rightarrow> system \<Rightarrow> system" where
  "signalled evs s = (if SDL_CondBroadcast \<in> set evs then wake_all s else s)"

definition init :: "string \<Rightarrow> system" where
  "init name = \<lparr>frames = Map.empty, state = media_open name, freed = False,
                decoder = Not_created, consumer = Idle, caller = Opened,
                ready_writes = 0, announced = False\<rparr>"

text \<open>
  The steps. The caller: \<^verbatim>\<open>media_start\<close> without a thread; \<^verbatim>\<open>SDL_CreateThread\<close>; the
  assignment to \<^verbatim>\<open>started\<close>; \<^verbatim>\<open>media_close\<close>, which deallocates or sets \<^verbatim>\<open>quit\<close>. The
  decode thread: the set-up, in any number of steps, which goes on to the loop or, on an
  error, to \<^verbatim>\<open>finish\<close>; the test of \<^verbatim>\<open>quit\<close>; the decoding, in any number of steps; the
  locked block at the end of the loop body, which may go to sleep; its waking up; the
  locked block at \<^verbatim>\<open>finish\<close>, which sleeps until \<^verbatim>\<open>quit\<close>; its waking up;
  \<^verbatim>\<open>deallocate\<close>. The consumer: a call, or a waking up, that finds \<^verbatim>\<open>ready\<close> clear and
  goes to sleep; one that finds it set and runs to the return. And any sleeping thread
  may wake up without a broadcast.
\<close>

inductive step :: "system \<Rightarrow> system \<Rightarrow> bool" where
  create_fails:
    "caller s = Opened \<Longrightarrow> \<not> freed s \<Longrightarrow>
     step s (s\<lparr>state := fst (media_start False (state s))\<rparr>)"
| create_thread:
    "caller s = Opened \<Longrightarrow> \<not> freed s \<Longrightarrow> decoder s = Not_created \<Longrightarrow>
     step s (s\<lparr>decoder := Setup, caller := Created\<rparr>)"
| set_started:
    "caller s = Created \<Longrightarrow> \<not> freed s \<Longrightarrow>
     step s (s\<lparr>state := fst (media_start True (state s)), caller := Started\<rparr>)"
| close_frees:
    "caller s = Opened \<or> caller s = Started \<Longrightarrow> \<not> freed s \<Longrightarrow>
     media_close (frames s) (state s) = Some (h', None, evs) \<Longrightarrow>
     step s (s\<lparr>frames := h', freed := True, caller := Closed\<rparr>)"
| close_quits:
    "caller s = Opened \<or> caller s = Started \<Longrightarrow> \<not> freed s \<Longrightarrow>
     media_close (frames s) (state s) = Some (h', Some ms', evs) \<Longrightarrow>
     step s (signalled evs (s\<lparr>frames := h', state := ms', caller := Closed\<rparr>))"
| discovery:
    "decoder s = Setup \<Longrightarrow> \<not> freed s \<Longrightarrow> setup_writes (state s) ms' \<Longrightarrow>
     pc = Setup \<or> pc = Loop_test False \<or> pc = Finish False \<Longrightarrow>
     step s (s\<lparr>state := ms', decoder := pc\<rparr>)"
| test_quit:
    "decoder s = Loop_test b \<Longrightarrow> \<not> freed s \<Longrightarrow>
     step s (s\<lparr>decoder := (if quit (state s) then Finish b else Decode b)\<rparr>)"
| decoding:
    "decoder s = Decode b \<Longrightarrow> \<not> freed s \<Longrightarrow> decode_writes (state s) ms' \<Longrightarrow>
     pc = Decode b \<or> pc = Sync b \<Longrightarrow>
     step s (s\<lparr>frames := h', state := ms', decoder := pc\<rparr>)"
| synchronise:
    "decoder s = Sync b \<Longrightarrow> \<not> freed s \<Longrightarrow> s1 = signal_ready s \<Longrightarrow>
     step s (if \<not> (needs_decode (state s1) \<or> quit (state s1))
             then s1\<lparr>decoder := Sync_wait\<rparr>
             else s1\<lparr>state := (state s1)\<lparr>needs_decode := False\<rparr>, decoder := Loop_test True\<rparr>)"
| sync_resume:
    "decoder s = Sync_woken \<Longrightarrow> \<not> freed s \<Longrightarrow>
     step s (s\<lparr>state := (state s)\<lparr>needs_decode := False\<rparr>, decoder := Loop_test True\<rparr>)"
| exit_path:
    "decoder s = Finish b \<Longrightarrow> \<not> freed s \<Longrightarrow> s1 = signal_ready s \<Longrightarrow>
     step s (s1\<lparr>decoder := (if quit (state s1) then Dealloc else Final_wait)\<rparr>)"
| exit_resume:
    "decoder s = Final_woken \<Longrightarrow> \<not> freed s \<Longrightarrow>
     step s (s\<lparr>decoder := (if quit (state s) then Dealloc else Final_wait)\<rparr>)"
| deallocation:
    "decoder s = Dealloc \<Longrightarrow> \<not> freed s \<Longrightarrow> deallocate (frames s) (state s) = Some h' \<Longrightarrow>
     step s (s\<lparr>frames := h', freed := True, decoder := Dead\<rparr>)"
| pull_waits:
    "consumer s = Idle \<or> consumer s = Ready_woken \<Longrightarrow> \<not> freed s \<Longrightarrow>
     \<not> ready (state s) \<Longrightarrow>
     step s (s\<lparr>consumer := Ready_wait\<rparr>)"
| pull_returns:
    "consumer s = Idle \<or> consumer s = Ready_woken \<Longrightarrow> \<not> freed s \<Longrightarrow>
     media_read_audio (frames s) (state s) len = Some (rv, stream, h', ms', evs) \<Longrightarrow>
     step s (signalled evs (s\<lparr>frames := h', state := ms', consumer := Idle\<rparr>))"
| spurious_wakeup:
    "step s (s\<lparr>decoder := (case decoder s of Sync_wait \<Rightarrow> Sync_woken
                               | Final_wait \<Rightarrow> Final_woken | pc \<Rightarrow> pc),
               consumer := (case consumer s of Ready_wait \<Rightarrow> Ready_woken | pc \<Rightarrow> pc)\<rparr>)"

text \<open>The states that a handle can reach after \<^verbatim>\<open>media_open\<close>.\<close>

inductive reachable :: "system \<Rightarrow> bool" where
  initially: "reachable (init name)"
| after: "reachable s \<Longrightarrow> step s s' \<Longrightarrow> reachable s'"

text \<open>
  What holds of \<^verbatim>\<open>ready\<close> in every reachable state: the flag is set exactly when the
  decode thread has been through one of its locked blocks; the assignment has run once if
  the flag is set and never otherwise; and when the flag is set, the broadcast has been
  made and the consumer is not asleep.
\<close>

definition ready_protocol :: "system \<Rightarrow> bool" where
  "ready_protocol s =
     (ready (state s) = past_locked_block (decoder s)
      \<and> ready_writes s = (if ready (state s) then 1 else 0)
      \<and> (ready (state s) \<longrightarrow> announced s \<and> consumer s \<noteq> Ready_wait))"

section \<open>Example states\<close>

text \<open>Three allocated frames, at the addresses 3, 4 and 5.\<close>

definition three_frames :: frame_store where
  "three_frames =
     [3 \<mapsto> \<lparr>nb_samples = 1, data0 = [1, 2, 3, 4], opaque = None\<rparr>,
      4 \<mapsto> \<lparr>nb_samples = 1, data0 = [5, 6, 7, 8], opaque = None\<rparr>,
      5 \<mapsto> \<lparr>nb_samples = 0, data0 = [], opaque = None\<rparr>]"

text \<open>One frame of two samples at address 0, and a ready state whose queue holds it.\<close>

definition one_frame :: frame_store where
  "one_frame = [0 \<mapsto> \<lparr>nb_samples = 2, data0 = [1, 2, 3, 4, 5, 6, 7, 8], opaque = None\<rparr>]"

definition playing_state :: MediaState where
  "playing_state = (media_open ''a.ogg'')
     \<lparr>started := True, ready := True,
      audio_queue := \<lparr>first = Some 0, last_frame = Some 0\<rparr>,
      audio_queue_samples := 2\<rparr>"

text \<open>The same state with a duration of one sample, as \<^verbatim>\<open>media_start_end\<close> may set it.\<close>

definition bounded_state :: MediaState where
  "bounded_state = playing_state\<lparr>audio_duration := 1\<rparr>"

text \<open>
  A container of three packets: a subtitle packet (stream 2), a video packet (stream 0)
  and an audio packet (stream 1), read by a state that selected streams 0 and 1.
\<close>

definition packet_of :: "int \<Rightarrow> AVPacket" where
  "packet_of i = \<lparr>data = Some [], size_pkt = 0, stream_index = i\<rparr>"

definition demux_state :: MediaState where
  "demux_state = (media_open ''a.ogv'')
     \<lparr>started := True, video_stream := 0, audio_stream := 1,
      ctx := [packet_of 2, packet_of 0, packet_of 1]\<rparr>"

text \<open>
  One second of audio at 44100 Hz in a single frame at address 0, and a started state
  that skips the first \<open>s\<close> seconds.
\<close>

definition second_of_audio :: frame_store where
  "second_of_audio =
     [0 \<mapsto> \<lparr>nb_samples = 44100, data0 = replicate 176400 0, opaque = None\<rparr>]"

definition skip_state :: "real \<Rightarrow> MediaState" where
  "skip_state s = (media_open ''a.ogg'')\<lparr>started := True, skip := s\<rparr>"

text \<open>
  A run in which the set-up fails: the consumer calls \<^verbatim>\<open>media_read_audio\<close> on the new
  handle and goes to sleep; the thread is created; the set-up fails; the exit path sets
  \<^verbatim>\<open>ready\<close>, wakes the consumer, and waits for \<^verbatim>\<open>quit\<close>. Then \<^verbatim>\<open>media_start\<close> sets
  \<^verbatim>\<open>started\<close>.
\<close>

definition run0 :: system where
  "run0 = init ''a.ogg''"

definition run1 :: system where
  "run1 = run0\<lparr>consumer := Ready_wait\<rparr>"

definition run2 :: system where
  "run2 = run1\<lparr>decoder := Setup, caller := Created\<rparr>"

definition run3 :: system where
  "run3 = run2\<lparr>decoder := Finish False\<rparr>"

definition run4 :: system where
  "run4 = \<lparr>frames = Map.empty, state = (media_open ''a.ogg'')\<lparr>ready := True\<rparr>, freed = False,
           decoder = Final_wait, consumer = Ready_woken, caller = Created,
           ready_writes = 1, announced = True\<rparr>"

definition run5 :: system where
  "run5 = run4\<lparr>state := (media_open ''a.ogg'')\<lparr>ready := True, started := True\<rparr>,
               caller := Started\<rparr>"

text \<open>
  A run in which the set-up succeeds, from the same start: the set-up goes on to the loop;
  \<^verbatim>\<open>quit\<close> is clear; the decoding returns; the locked block at the end of the loop body
  sets \<^verbatim>\<open>ready\<close>, wakes the consumer, and goes to sleep since nothing has been read yet.
\<close>

definition loop3 :: system where
  "loop3 = run2\<lparr>decoder := Loop_test False\<rparr>"

definition loop4 :: system where
  "loop4 = run2\<lparr>decoder := Decode False\<rparr>"

definition loop5 :: system where
  "loop5 = run2\<lparr>decoder := Sync False\<rparr>"

definition loop6 :: system where
  "loop6 = \<lparr>frames = Map.empty, state = (media_open ''a.ogg'')\<lparr>ready := True\<rparr>, freed = False,
            decoder = Sync_wait, consumer = Ready_woken, caller = Created,
            ready_writes = 1, announced = True\<rparr>"

section \<open>The frame queue is first in, first out\<close>

lemma linked_store_other:
  "a \<notin> set as \<Longrightarrow> linked (h(a := v)) p as = linked h p as"
  by (induction as arbitrary: p) (auto split: option.splits)

lemma linked_append_last:
  assumes "linked h p (as @ [l])" "distinct (as @ [l])" "h l = Some fl" "a \<notin> set (as @ [l])"
    "h a = Some fa" "opaque fa = None"
  shows "linked (h(l \<mapsto> fl\<lparr>opaque := Some a\<rparr>)) p (as @ [l, a])"
  using assms
proof (induction as arbitrary: p)
  case Nil
  then show ?case by (auto split: option.splits)
next
  case (Cons b bs)
  then show ?case by (auto split: option.splits)
qed

lemma linked_last_allocated:
  "linked h p (bs @ [l]) \<Longrightarrow> \<exists>fl. h l = Some fl"
  by (induction bs arbitrary: p) (auto split: option.splits)

text \<open>
  Enqueueing an allocated frame that is not in the queue appends it, and changes no
  frame's samples.
\<close>

lemma enqueue_frame_queue_of:
  assumes q: "queue_of h fq as" and a: "h a = Some f" and fresh: "a \<notin> set as"
  shows "\<exists>h' fq'. enqueue_frame h fq (Some a) = Some (h', fq') \<and> queue_of h' fq' (as @ [a])
           \<and> dom h' = dom h
           \<and> (\<forall>b g. h b = Some g \<longrightarrow>
                 (\<exists>g'. h' b = Some g' \<and> nb_samples g' = nb_samples g \<and> data0 g' = data0 g))"
proof (cases as rule: rev_cases)
  case Nil
  with q a show ?thesis
    by (auto simp: queue_of_def enqueue_frame_def set_opaque_def)
next
  case (snoc bs l)
  let ?h1 = "h(a \<mapsto> f\<lparr>opaque := None\<rparr>)"
  from q snoc have lk: "linked h (first fq) (bs @ [l])" and d: "distinct (bs @ [l])"
    and lst: "last_frame fq = Some l" by (auto simp: queue_of_def)
  from lk have fne: "first fq \<noteq> None" by (cases bs) auto
  from linked_last_allocated[OF lk] obtain fl where fl: "h l = Some fl" by blast
  from fresh snoc have al: "a \<noteq> l" by auto
  have lk1: "linked ?h1 (first fq) (bs @ [l])"
    using lk fresh snoc by (simp add: linked_store_other)
  have "linked (?h1(l \<mapsto> fl\<lparr>opaque := Some a\<rparr>)) (first fq) (bs @ [l, a])"
    by (rule linked_append_last[OF lk1 d]) (use fl al fresh snoc in auto)
  with fne lst fl al d fresh snoc a show ?thesis
    by (auto simp: queue_of_def enqueue_frame_def set_opaque_def)
qed

lemma dequeue_frame_queue_of:
  assumes "queue_of h fq (a # as)"
  shows "\<exists>fq'. dequeue_frame h fq = Some (Some a, fq') \<and> queue_of h fq' as"
  using assms
  by (cases as) (auto simp: queue_of_def dequeue_frame_def Let_def split: option.splits)

lemma dequeue_frame_empty:
  "first fq = None \<Longrightarrow> dequeue_frame h fq = Some (None, fq)"
  by (simp add: dequeue_frame_def)

lemma enqueue_frames_queue_of:
  assumes "queue_of h fq bs" "distinct (bs @ as)" "set as \<subseteq> dom h"
  shows "\<exists>h' fq'. enqueue_frames h fq (map Some as) = Some (h', fq') \<and> queue_of h' fq' (bs @ as)"
  using assms
proof (induction as arbitrary: h fq bs)
  case Nil
  then show ?case by simp
next
  case (Cons a as)
  from Cons.prems obtain f where f: "h a = Some f" by auto
  from Cons.prems have fresh: "a \<notin> set bs" by auto
  from enqueue_frame_queue_of[OF Cons.prems(1) f fresh]
  obtain h1 fq1 where e: "enqueue_frame h fq (Some a) = Some (h1, fq1)"
    and q1: "queue_of h1 fq1 (bs @ [a])" and d: "dom h1 = dom h" by blast
  from Cons.prems have "distinct ((bs @ [a]) @ as)" "set as \<subseteq> dom h1" using d by auto
  from Cons.IH[OF q1 this] e show ?case by auto
qed

lemma dequeue_frames_queue_of:
  assumes "queue_of h fq as"
  shows "\<exists>fq'. dequeue_frames h fq (length as) = Some (map Some as, fq') \<and> first fq' = None
           \<and> (as \<noteq> [] \<longrightarrow> last_frame fq' = None)"
  using assms
proof (induction as arbitrary: fq)
  case Nil
  then show ?case by (simp add: queue_of_def)
next
  case (Cons a as)
  from dequeue_frame_queue_of[OF Cons.prems]
  obtain fq1 where d: "dequeue_frame h fq = Some (Some a, fq1)" and q: "queue_of h fq1 as" by blast
  from Cons.IH[OF q] obtain fq2 where
    r: "dequeue_frames h fq1 (length as) = Some (map Some as, fq2)" "first fq2 = None"
       "as \<noteq> [] \<longrightarrow> last_frame fq2 = None" by blast
  have "last_frame fq2 = None"
  proof (cases as)
    case Nil
    with r d Cons.prems show ?thesis
      by (auto simp: dequeue_frame_def queue_of_def Let_def split: option.splits if_splits)
  next
    case (Cons b bs)
    with r show ?thesis by simp
  qed
  with d r show ?case by simp
qed

lemma queue_of_empty: "queue_of h empty_queue []"
  by (simp add: queue_of_def empty_queue_def)

text \<open>
  C9. Starting from the empty queue, enqueue any sequence of frames: separate, allocated
  frames, as \<^verbatim>\<open>decode_audio\<close> enqueues them (each comes fresh from \<^verbatim>\<open>av_frame_alloc\<close>; the
  link is kept inside the frame, so a frame can be in the queue only once). Then as many
  calls of \<^verbatim>\<open>dequeue_frame\<close> return exactly these frames in the order they were enqueued,
  and leave the queue empty. \<^verbatim>\<open>dequeue_frame\<close> on an empty queue returns \<^verbatim>\<open>NULL\<close> and does
  not change the queue.
\<close>

theorem frame_queue_fifo:
  assumes "distinct as" and "set as \<subseteq> dom h"
  shows "(\<exists>h' fq'. enqueue_frames h empty_queue (map Some as) = Some (h', fq')
            \<and> dequeue_frames h' fq' (length as) = Some (map Some as, empty_queue))
         \<and> (\<forall>h' fq. first fq = None \<longrightarrow> dequeue_frame h' fq = Some (None, fq))"
proof -
  from enqueue_frames_queue_of[OF queue_of_empty, of as h] assms
  obtain h' fq' where e: "enqueue_frames h empty_queue (map Some as) = Some (h', fq')"
    and q: "queue_of h' fq' as" by auto
  from dequeue_frames_queue_of[OF q] obtain fq2 where
    r: "dequeue_frames h' fq' (length as) = Some (map Some as, fq2)" "first fq2 = None"
       "as \<noteq> [] \<longrightarrow> last_frame fq2 = None" by blast
  have "fq2 = empty_queue"
  proof (cases as)
    case Nil
    with e r show ?thesis by simp
  next
    case (Cons b bs)
    with r show ?thesis by (simp add: empty_queue_def)
  qed
  with e r show ?thesis by (simp add: dequeue_frame_empty)
qed

theorem frame_queue_fifo_witness:
  "distinct [3, 5, 4::nat] \<and> set [3, 5, 4] \<subseteq> dom three_frames
   \<and> (\<exists>h' fq'. enqueue_frames three_frames empty_queue (map Some [3, 5, 4]) = Some (h', fq')
            \<and> dequeue_frames h' fq' (length [3, 5, 4::nat]) = Some (map Some [3, 5, 4], empty_queue))
   \<and> first empty_queue = None
   \<and> dequeue_frame three_frames empty_queue = Some (None, empty_queue)"
proof -
  have d: "distinct [3, 5, 4::nat]" by simp
  have s: "set [3, 5, 4] \<subseteq> dom three_frames" by (simp add: three_frames_def)
  have e: "first empty_queue = None" by (simp add: empty_queue_def)
  from frame_queue_fifo[OF d s] d s e show ?thesis by blast
qed

section \<open>The demuxer delivers one packet of the wanted stream\<close>

lemma read_packet_nonempty:
  "deref ms pq = p # rest \<Longrightarrow> read_packet ms pq pkt = (1, p, assign ms pq rest)"
  by (subst read_packet.simps) (simp add: dequeue_packet_def)

lemma read_packet_eof:
  "deref ms pq = [] \<Longrightarrow> ctx ms = [] \<Longrightarrow>
     read_packet ms pq pkt = (0, pkt\<lparr>data := None, size_pkt := 0\<rparr>, ms)"
  by (subst read_packet.simps) (simp add: dequeue_packet_def av_read_frame_def)

lemma read_packet_step:
  "deref ms pq = [] \<Longrightarrow> ctx ms = s # rest \<Longrightarrow>
     read_packet ms pq pkt = read_packet (route_packet (ms\<lparr>ctx := rest\<rparr>) s) pq pkt"
  by (subst read_packet.simps) (simp add: dequeue_packet_def av_read_frame_def)

text \<open>
  With the wanted queue empty, the whole loop in one step: the packets in front of the
  first one of the wanted stream are taken from the container, those of the other
  selected stream go to the other queue in order, the rest are freed; the first packet
  of the wanted stream is returned, and without one the container is read to its end.
\<close>

lemma read_packet_empty_target:
  assumes "deref ms pq = []" "audio_stream ms \<noteq> video_stream ms" "ctx ms = c"
  shows "read_packet ms pq pkt =
     (let skipped = takeWhile (\<lambda>s. stream_index s \<noteq> selected_stream ms pq) c;
          ms1 = assign ms (other_queue pq)
                  (deref ms (other_queue pq) @
                   filter (\<lambda>s. stream_index s = selected_stream ms (other_queue pq)) skipped)
      in case dropWhile (\<lambda>s. stream_index s \<noteq> selected_stream ms pq) c of
           [] \<Rightarrow> (0, pkt\<lparr>data := None, size_pkt := 0\<rparr>, ms1\<lparr>ctx := []\<rparr>)
         | s # rest \<Rightarrow> (1, s, ms1\<lparr>ctx := rest\<rparr>))"
  using assms
proof (induction c arbitrary: ms)
  case Nil
  then have "ms\<lparr>ctx := []\<rparr> = ms" by simp
  with Nil show ?case
    by (cases pq) (simp_all add: read_packet_eof assign_def deref_def other_queue_def)
next
  case (Cons s rest)
  let ?ms1 = "route_packet (ms\<lparr>ctx := rest\<rparr>) s"
  have step: "read_packet ms pq pkt = read_packet ?ms1 pq pkt"
    using Cons.prems by (simp add: read_packet_step)
  show ?case
  proof (cases "stream_index s = selected_stream ms pq")
    case True
    with Cons.prems have "deref ?ms1 pq = [s]"
      by (cases pq) (auto simp: route_packet_def deref_def selected_stream_def enqueue_packet_def)
    then have "read_packet ?ms1 pq pkt = (1, s, assign ?ms1 pq [])"
      by (rule read_packet_nonempty)
    with step True Cons.prems show ?thesis
      by (cases pq) (auto simp: route_packet_def deref_def assign_def
          selected_stream_def other_queue_def enqueue_packet_def)
  next
    case False
    with Cons.prems have e: "deref ?ms1 pq = []" "audio_stream ?ms1 \<noteq> video_stream ?ms1"
      "ctx ?ms1 = rest"
      by (cases pq; auto simp: route_packet_def deref_def selected_stream_def)+
    note Cons.IH[OF e]
    with step False Cons.prems show ?thesis
      by (cases pq; cases "dropWhile (\<lambda>x. stream_index x \<noteq> selected_stream ms pq) rest";
          simp add: route_packet_def deref_def assign_def
            selected_stream_def other_queue_def enqueue_packet_def Let_def
            del: dropWhile_eq_Nil_conv)
  qed
qed

text \<open>
  C4. \<^verbatim>\<open>read_packet\<close> on a state whose audio and video streams are different streams (as
  \<^verbatim>\<open>decode_thread\<close> selects them):
  \<^item> if the wanted queue is not empty, its first packet is dequeued and returned with
    success, and nothing else changes;
  \<^item> otherwise, if the container has a next packet, that packet is routed (to the audio
    queue if its \<^verbatim>\<open>stream_index\<close> is the audio stream, to the video queue if it is the
    video stream, and dropped otherwise) and the function starts again;
  \<^item> otherwise the container is at its end, and the function returns failure and the
    sentinel packet (\<^verbatim>\<open>data\<close> \<^verbatim>\<open>NULL\<close>, \<^verbatim>\<open>size\<close> 0), the state unchanged;
  \<^item> so, when the wanted queue is empty: if the container still holds a packet of the
    wanted stream, the first such packet is returned with success, the wanted queue is
    empty again, and the packets read before it have gone to the other queue or were
    dropped; if it holds none, the result is failure with the sentinel and the container
    is read to its end.
\<close>

theorem read_packet_contract:
  assumes "audio_stream ms \<noteq> video_stream ms"
  shows "(deref ms pq = p # rest \<longrightarrow> read_packet ms pq pkt = (1, p, assign ms pq rest))
       \<and> (deref ms pq = [] \<and> ctx ms = s # unread \<longrightarrow>
            read_packet ms pq pkt = read_packet (route_packet (ms\<lparr>ctx := unread\<rparr>) s) pq pkt
          \<and> route_packet (ms\<lparr>ctx := unread\<rparr>) s =
              (if stream_index s = audio_stream ms then
                 ms\<lparr>ctx := unread, audio_packet_queue := audio_packet_queue ms @ [s]\<rparr>
               else if stream_index s = video_stream ms then
                 ms\<lparr>ctx := unread, video_packet_queue := video_packet_queue ms @ [s]\<rparr>
               else ms\<lparr>ctx := unread\<rparr>))
       \<and> (deref ms pq = [] \<and> ctx ms = [] \<longrightarrow>
            read_packet ms pq pkt = (0, pkt\<lparr>data := None, size_pkt := 0\<rparr>, ms))
       \<and> (deref ms pq = [] \<and> ctx ms = skipped @ t # after
            \<and> (\<forall>x \<in> set skipped. stream_index x \<noteq> selected_stream ms pq)
            \<and> stream_index t = selected_stream ms pq \<longrightarrow>
            read_packet ms pq pkt =
              (1, t, (assign ms (other_queue pq)
                        (deref ms (other_queue pq) @
                         filter (\<lambda>x. stream_index x = selected_stream ms (other_queue pq)) skipped))
                     \<lparr>ctx := after\<rparr>))
       \<and> (deref ms pq = [] \<and> (\<forall>x \<in> set (ctx ms). stream_index x \<noteq> selected_stream ms pq) \<longrightarrow>
            read_packet ms pq pkt =
              (0, pkt\<lparr>data := None, size_pkt := 0\<rparr>,
               (assign ms (other_queue pq)
                  (deref ms (other_queue pq) @
                   filter (\<lambda>x. stream_index x = selected_stream ms (other_queue pq)) (ctx ms)))
               \<lparr>ctx := []\<rparr>))"
proof (intro conjI impI)
  assume "deref ms pq = p # rest"
  then show "read_packet ms pq pkt = (1, p, assign ms pq rest)" by (rule read_packet_nonempty)
next
  assume "deref ms pq = [] \<and> ctx ms = s # unread"
  then show "read_packet ms pq pkt = read_packet (route_packet (ms\<lparr>ctx := unread\<rparr>) s) pq pkt"
    by (simp add: read_packet_step)
next
  show "route_packet (ms\<lparr>ctx := unread\<rparr>) s =
          (if stream_index s = audio_stream ms then
             ms\<lparr>ctx := unread, audio_packet_queue := audio_packet_queue ms @ [s]\<rparr>
           else if stream_index s = video_stream ms then
             ms\<lparr>ctx := unread, video_packet_queue := video_packet_queue ms @ [s]\<rparr>
           else ms\<lparr>ctx := unread\<rparr>)"
    using assms by (simp add: route_packet_def enqueue_packet_def)
next
  assume "deref ms pq = [] \<and> ctx ms = []"
  then show "read_packet ms pq pkt = (0, pkt\<lparr>data := None, size_pkt := 0\<rparr>, ms)"
    by (simp add: read_packet_eof)
next
  assume a: "deref ms pq = [] \<and> ctx ms = skipped @ t # after
            \<and> (\<forall>x \<in> set skipped. stream_index x \<noteq> selected_stream ms pq)
            \<and> stream_index t = selected_stream ms pq"
  then have tw: "takeWhile (\<lambda>s. stream_index s \<noteq> selected_stream ms pq) (ctx ms) = skipped"
    and dw: "dropWhile (\<lambda>s. stream_index s \<noteq> selected_stream ms pq) (ctx ms) = t # after"
    by (simp_all add: takeWhile_append2 dropWhile_append2)
  from a have e: "deref ms pq = []" by simp
  show "read_packet ms pq pkt =
          (1, t, (assign ms (other_queue pq)
                    (deref ms (other_queue pq) @
                     filter (\<lambda>x. stream_index x = selected_stream ms (other_queue pq)) skipped))
                 \<lparr>ctx := after\<rparr>)"
    by (simp add: read_packet_empty_target[OF e assms refl] tw dw Let_def)
next
  assume a: "deref ms pq = [] \<and> (\<forall>x \<in> set (ctx ms). stream_index x \<noteq> selected_stream ms pq)"
  then have tw: "takeWhile (\<lambda>s. stream_index s \<noteq> selected_stream ms pq) (ctx ms) = ctx ms"
    and dw: "dropWhile (\<lambda>s. stream_index s \<noteq> selected_stream ms pq) (ctx ms) = []"
    by simp_all
  from a have e: "deref ms pq = []" by simp
  show "read_packet ms pq pkt =
          (0, pkt\<lparr>data := None, size_pkt := 0\<rparr>,
           (assign ms (other_queue pq)
              (deref ms (other_queue pq) @
               filter (\<lambda>x. stream_index x = selected_stream ms (other_queue pq)) (ctx ms)))
           \<lparr>ctx := []\<rparr>)"
    by (simp add: read_packet_empty_target[OF e assms refl] tw dw Let_def)
qed

theorem read_packet_contract_witness:
  "audio_stream demux_state \<noteq> video_stream demux_state
   \<and> read_packet demux_state Audio_packet_queue (packet_of 9) =
       (1, packet_of 1, demux_state\<lparr>ctx := [], video_packet_queue := [packet_of 0]\<rparr>)
   \<and> read_packet demux_state Audio_packet_queue (packet_of 9) =
       read_packet (demux_state\<lparr>ctx := [packet_of 0, packet_of 1]\<rparr>) Audio_packet_queue (packet_of 9)
   \<and> read_packet (demux_state\<lparr>video_packet_queue := [packet_of 0, packet_of 0]\<rparr>)
         Video_packet_queue (packet_of 9) =
       (1, packet_of 0, demux_state\<lparr>video_packet_queue := [packet_of 0]\<rparr>)
   \<and> read_packet (demux_state\<lparr>ctx := [packet_of 2, packet_of 0]\<rparr>) Audio_packet_queue (packet_of 9) =
       (0, \<lparr>data = None, size_pkt = 0, stream_index = 9\<rparr>,
        demux_state\<lparr>ctx := [], video_packet_queue := [packet_of 0]\<rparr>)
   \<and> read_packet (demux_state\<lparr>ctx := []\<rparr>) Audio_packet_queue (packet_of 9) =
       (0, \<lparr>data = None, size_pkt = 0, stream_index = 9\<rparr>, demux_state\<lparr>ctx := []\<rparr>)"
proof -
  have ne: "audio_stream demux_state \<noteq> video_stream demux_state"
    by (simp add: demux_state_def)
  have ne1: "audio_stream (demux_state\<lparr>video_packet_queue := [packet_of 0, packet_of 0]\<rparr>)
               \<noteq> video_stream (demux_state\<lparr>video_packet_queue := [packet_of 0, packet_of 0]\<rparr>)"
    by (simp add: demux_state_def)
  have ne2: "audio_stream (demux_state\<lparr>ctx := [packet_of 2, packet_of 0]\<rparr>)
               \<noteq> video_stream (demux_state\<lparr>ctx := [packet_of 2, packet_of 0]\<rparr>)"
    by (simp add: demux_state_def)
  have ne3: "audio_stream (demux_state\<lparr>ctx := []\<rparr>) \<noteq> video_stream (demux_state\<lparr>ctx := []\<rparr>)"
    by (simp add: demux_state_def)
  note found = read_packet_contract[OF ne, where pq = Audio_packet_queue and pkt = "packet_of 9"
      and skipped = "[packet_of 2, packet_of 0]" and t = "packet_of 1" and after = "[]"
      and s = "packet_of 2" and unread = "[packet_of 0, packet_of 1]"]
  note queued = read_packet_contract[OF ne1, where pq = Video_packet_queue and pkt = "packet_of 9"
      and p = "packet_of 0" and rest = "[packet_of 0]"]
  note missing = read_packet_contract[OF ne2, where pq = Audio_packet_queue and pkt = "packet_of 9"]
  note eof = read_packet_contract[OF ne3, where pq = Audio_packet_queue and pkt = "packet_of 9"]
  have fields: "ctx demux_state = [packet_of 2, packet_of 0, packet_of 1]"
    "audio_packet_queue demux_state = []" "video_packet_queue demux_state = []"
    "audio_stream demux_state = 1" "video_stream demux_state = 0"
    by (simp_all add: demux_state_def media_open_def)
  have idx: "stream_index (packet_of 0) = 0" "stream_index (packet_of 1) = 1"
    "stream_index (packet_of 2) = 2"
    "(packet_of 9)\<lparr>data := None, size_pkt := 0\<rparr> = \<lparr>data = None, size_pkt = 0, stream_index = 9\<rparr>"
    by (simp_all add: packet_of_def)
  have a: "read_packet demux_state Audio_packet_queue (packet_of 9) =
       (1, packet_of 1, demux_state\<lparr>ctx := [], video_packet_queue := [packet_of 0]\<rparr>)"
    using found[THEN conjunct2, THEN conjunct2, THEN conjunct2, THEN conjunct1]
    by (simp add: fields idx deref_def assign_def other_queue_def selected_stream_def)
  have b: "read_packet demux_state Audio_packet_queue (packet_of 9) =
       read_packet (demux_state\<lparr>ctx := [packet_of 0, packet_of 1]\<rparr>) Audio_packet_queue (packet_of 9)"
    using found[THEN conjunct2, THEN conjunct1] by (simp add: fields idx deref_def)
  have c: "read_packet (demux_state\<lparr>video_packet_queue := [packet_of 0, packet_of 0]\<rparr>)
         Video_packet_queue (packet_of 9) =
       (1, packet_of 0, demux_state\<lparr>video_packet_queue := [packet_of 0]\<rparr>)"
    using queued[THEN conjunct1] by (simp add: deref_def assign_def)
  have d: "read_packet (demux_state\<lparr>ctx := [packet_of 2, packet_of 0]\<rparr>) Audio_packet_queue (packet_of 9) =
       (0, \<lparr>data = None, size_pkt = 0, stream_index = 9\<rparr>,
        demux_state\<lparr>ctx := [], video_packet_queue := [packet_of 0]\<rparr>)"
    using missing[THEN conjunct2, THEN conjunct2, THEN conjunct2, THEN conjunct2]
    by (simp add: fields idx deref_def assign_def other_queue_def selected_stream_def)
  have e: "read_packet (demux_state\<lparr>ctx := []\<rparr>) Audio_packet_queue (packet_of 9) =
       (0, \<lparr>data = None, size_pkt = 0, stream_index = 9\<rparr>, demux_state\<lparr>ctx := []\<rparr>)"
    using eof[THEN conjunct2, THEN conjunct2, THEN conjunct1] by (simp add: fields idx deref_def)
  from ne a b c d e show ?thesis by blast
qed

section \<open>The result of a pull\<close>

lemma queue_of_free_other:
  "a \<notin> set as \<Longrightarrow> queue_of (h(a := None)) fq as = queue_of h fq as"
  by (simp add: queue_of_def linked_store_other)

lemma frame_ok_free_other:
  "a \<notin> set as \<Longrightarrow> list_all (frame_ok (h(a := None))) as = list_all (frame_ok h) as"
  by (induction as) (auto simp: frame_ok_def)

text \<open>
  One turn of the fill loop on the frame being read: it copies what is asked for or what
  the frame still holds, whichever is less, and then either nothing more is asked for or
  the frame is used up and freed.
\<close>

lemma fill_iteration_out_frame:
  assumes ok: "pcm_ok h ms as" and out: "audio_out_frame ms = Some a" and len: "0 < len"
  shows "\<exists>h1 ms1 len1 rv1 stream1.
           fill_iteration h ms len rv stream = Some (False, h1, ms1, len1, rv1, stream1)
         \<and> pcm_ok h1 ms1 as
         \<and> 0 \<le> len1 \<and> len1 \<le> len \<and> rv1 = rv + (len - len1)
         \<and> int (length stream1) = int (length stream) + (len - len1)
         \<and> (len1 = 0 \<or> pending ms1 as < pending ms as)
         \<and> needs_decode ms1 = needs_decode ms"
proof -
  from ok out obtain f where f: "h a = Some f" and nb: "0 \<le> nb_samples f"
    and dl: "nb_samples f * BPS \<le> int (length (data0 f))"
    and fresh: "a \<notin> set as" and i0: "0 \<le> audio_out_index ms"
    and i1: "audio_out_index ms \<le> nb_samples f * BPS"
    and q: "queue_of h (audio_queue ms) as" and fs: "list_all (frame_ok h) as"
    by (auto simp: pcm_ok_def frame_ok_def samples_at_def split: option.splits)
  let ?avail = "nb_samples f * BPS - audio_out_index ms"
  show ?thesis
  proof (cases "len > ?avail")
    case True
    with f out dl i0 i1 len q fs fresh show ?thesis
      by (simp add: fill_iteration_def memcpy_def av_frame_free_def Let_def pcm_ok_def
          queue_of_free_other frame_ok_free_other pending_def)
  next
    case False
    with f out dl i0 i1 len q fs fresh nb show ?thesis
      by (auto simp: fill_iteration_def memcpy_def av_frame_free_def Let_def pcm_ok_def
          queue_of_free_other frame_ok_free_other pending_def frame_ok_def samples_at_def)
  qed
qed

text \<open>
  The same turn keeps the accounting of queued samples, as long as the requested length
  and the index are whole samples (multiples of 4 bytes).
\<close>

lemma samples_free_other:
  "a \<notin> set as \<Longrightarrow> map (samples_at (h(a := None))) as = map (samples_at h) as"
  by (induction as) (auto simp: samples_at_def)

lemma sdiv_4: "(4 * j) sdiv (4::int) = j"
  by (simp add: signed_divide_int_def abs_mult sgn_mult sgn_mult_abs)

lemma fill_iteration_out_frame_accounting:
  assumes ok: "pcm_ok h ms as" and out: "audio_out_frame ms = Some a" and len: "0 < len"
    and acc: "queue_accounting h ms as" and al: "4 dvd len" "4 dvd audio_out_index ms"
    and it: "fill_iteration h ms len rv stream = Some (brk, h1, ms1, len1, rv1, stream1)"
  shows "queue_accounting h1 ms1 as \<and> 4 dvd len1 \<and> 4 dvd audio_out_index ms1"
proof -
  from ok out obtain f where f: "h a = Some f" and nb: "0 \<le> nb_samples f"
    and dl: "nb_samples f * BPS \<le> int (length (data0 f))"
    and fresh: "a \<notin> set as" and i0: "0 \<le> audio_out_index ms"
    and i1: "audio_out_index ms \<le> nb_samples f * BPS"
    by (auto simp: pcm_ok_def frame_ok_def samples_at_def split: option.splits)
  from al obtain m k where m: "len = 4 * m" and k: "audio_out_index ms = 4 * k"
    by (auto elim!: dvdE)
  from i0 i1 len m k have pos: "0 < m" "0 \<le> k" "k \<le> nb_samples f" by (auto simp: BPS_def)
  have sd: "(4 * j) sdiv (4::int) = j" "(n * 4 - 4 * j) sdiv (4::int) = n - j"
    "(4 * i + 4 * j) sdiv (4::int) = i + j" for i j n :: int
    using sdiv_4[of j] sdiv_4[of "n - j"] sdiv_4[of "i + j"] by (simp_all add: algebra_simps)
  have dv: "4 dvd 4 * i - (n * 4 - 4 * j)" for i j n :: int
    by (simp add: algebra_simps)
  show ?thesis
  proof (cases "len > nb_samples f * BPS - audio_out_index ms")
    case True
    with it f out dl i0 i1 len fresh acc pos show ?thesis
      by (auto simp: fill_iteration_def memcpy_def av_frame_free_def Let_def BPS_def
          queue_accounting_def samples_free_other samples_at_def sd dv m k)
  next
    case False
    with it f out dl i0 i1 len fresh acc pos show ?thesis
      by (auto simp: fill_iteration_def memcpy_def av_frame_free_def Let_def BPS_def
          queue_accounting_def samples_free_other samples_at_def m k sd dv split: if_splits)
  qed
qed

lemma fill_iteration_dequeue:
  assumes "audio_out_frame ms = None" "dequeue_frame h (audio_queue ms) = Some (Some a, fq')"
  shows "fill_iteration h ms len rv stream =
         fill_iteration h (ms\<lparr>audio_queue := fq', audio_out_frame := Some a, audio_out_index := 0\<rparr>)
           len rv stream"
  using assms by (simp add: fill_iteration_def)

lemma fill_iteration_ok:
  assumes ok: "pcm_ok h ms as" and len: "0 < len"
  shows "\<exists>brk h1 ms1 len1 rv1 stream1 as1.
           fill_iteration h ms len rv stream = Some (brk, h1, ms1, len1, rv1, stream1)
         \<and> pcm_ok h1 ms1 as1
         \<and> 0 \<le> len1 \<and> len1 \<le> len \<and> rv1 = rv + (len - len1)
         \<and> int (length stream1) = int (length stream) + (len - len1)
         \<and> (brk \<or> len1 = 0 \<or> pending ms1 as1 < pending ms as)
         \<and> needs_decode ms1 = needs_decode ms
         \<and> (queue_accounting h ms as \<and> 4 dvd len \<and> 4 dvd audio_out_index ms \<longrightarrow>
              queue_accounting h1 ms1 as1 \<and> 4 dvd len1 \<and> 4 dvd audio_out_index ms1)"
proof (cases "audio_out_frame ms")
  case (Some a)
  from fill_iteration_out_frame[OF ok Some len, of rv stream]
  obtain h1 ms1 len1 rv1 stream1 where
    r: "fill_iteration h ms len rv stream = Some (False, h1, ms1, len1, rv1, stream1)"
       "pcm_ok h1 ms1 as" "0 \<le> len1" "len1 \<le> len" "rv1 = rv + (len - len1)"
       "int (length stream1) = int (length stream) + (len - len1)"
       "len1 = 0 \<or> pending ms1 as < pending ms as"
       "needs_decode ms1 = needs_decode ms" by blast
  from fill_iteration_out_frame_accounting[OF ok Some len _ _ _ r(1)]
  have "queue_accounting h ms as \<and> 4 dvd len \<and> 4 dvd audio_out_index ms \<longrightarrow>
          queue_accounting h1 ms1 as \<and> 4 dvd len1 \<and> 4 dvd audio_out_index ms1" by blast
  with r show ?thesis by blast
next
  case None
  show ?thesis
  proof (cases as)
    case Nil
    with ok None have "first (audio_queue ms) = None" by (simp add: pcm_ok_def queue_of_def)
    with None Nil ok len show ?thesis
      by (auto simp: fill_iteration_def dequeue_frame_def pcm_ok_def queue_of_def
          queue_accounting_def)
  next
    case (Cons a as')
    with ok have q: "queue_of h (audio_queue ms) (a # as')" by (simp add: pcm_ok_def)
    from dequeue_frame_queue_of[OF q] obtain fq' where
      d: "dequeue_frame h (audio_queue ms) = Some (Some a, fq')" and q': "queue_of h fq' as'"
      by blast
    let ?ms = "ms\<lparr>audio_queue := fq', audio_out_frame := Some a, audio_out_index := 0\<rparr>"
    from ok Cons q q' have ok': "pcm_ok h ?ms as'"
      by (auto simp: pcm_ok_def queue_of_def frame_ok_def samples_at_def BPS_def
          split: option.splits)
    have out': "audio_out_frame ?ms = Some a" by simp
    from fill_iteration_out_frame[OF ok' out' len, of rv stream]
    obtain h1 ms1 len1 rv1 stream1 where
      r: "fill_iteration h ?ms len rv stream = Some (False, h1, ms1, len1, rv1, stream1)"
         "pcm_ok h1 ms1 as'" "0 \<le> len1" "len1 \<le> len" "rv1 = rv + (len - len1)"
         "int (length stream1) = int (length stream) + (len - len1)"
         "len1 = 0 \<or> pending ms1 as' < pending ?ms as'"
         "needs_decode ms1 = needs_decode ?ms" by auto
    have acc': "queue_accounting h ?ms as'" if "queue_accounting h ms as"
      using that None Cons by (simp add: queue_accounting_def)
    from fill_iteration_out_frame_accounting[OF ok' out' len _ _ _ r(1)] acc'
    have "queue_accounting h ms as \<and> 4 dvd len \<and> 4 dvd audio_out_index ms \<longrightarrow>
            queue_accounting h1 ms1 as' \<and> 4 dvd len1 \<and> 4 dvd audio_out_index ms1" by simp
    moreover have "pending ?ms as' = pending ms as" using None Cons by (simp add: pending_def)
    ultimately show ?thesis
      using r fill_iteration_dequeue[OF None d, of len rv stream] by auto
  qed
qed

text \<open>
  The fill loop returns, on a well-formed state and for a length that is not negative:
  by induction on the number of frames still to be read, since a turn that does not end
  the loop frees a frame.
\<close>

lemma fill_loop_ok:
  assumes "pcm_ok h ms as" "0 \<le> len"
  shows "\<exists>h' ms' rv' stream' as'.
           fill_loop h ms len rv stream = Some (h', ms', rv', stream')
         \<and> pcm_ok h' ms' as'
         \<and> rv \<le> rv' \<and> rv' \<le> rv + len
         \<and> int (length stream') = int (length stream) + (rv' - rv)
         \<and> needs_decode ms' = needs_decode ms
         \<and> (queue_accounting h ms as \<and> 4 dvd len \<and> 4 dvd audio_out_index ms \<longrightarrow>
              queue_accounting h' ms' as')"
  using assms
proof (induction "pending ms as" arbitrary: h ms as len rv stream rule: less_induct)
  case less
  show ?case
  proof (cases "len = 0")
    case True
    with less.prems show ?thesis by (subst fill_loop.simps) auto
  next
    case False
    with less.prems have len: "0 < len" by simp
    from fill_iteration_ok[OF less.prems(1) len, of rv stream]
    obtain brk h1 ms1 len1 rv1 stream1 as1 where
      it: "fill_iteration h ms len rv stream = Some (brk, h1, ms1, len1, rv1, stream1)"
      and ok1: "pcm_ok h1 ms1 as1" and l1: "0 \<le> len1" "len1 \<le> len"
      and rv1: "rv1 = rv + (len - len1)"
      and s1: "int (length stream1) = int (length stream) + (len - len1)"
      and dec: "brk \<or> len1 = 0 \<or> pending ms1 as1 < pending ms as"
      and nd: "needs_decode ms1 = needs_decode ms"
      and acc1: "queue_accounting h ms as \<and> 4 dvd len \<and> 4 dvd audio_out_index ms \<longrightarrow>
              queue_accounting h1 ms1 as1 \<and> 4 dvd len1 \<and> 4 dvd audio_out_index ms1" by blast
    have unfold: "fill_loop h ms len rv stream =
        (if brk then Some (h1, ms1, rv1, stream1) else fill_loop h1 ms1 len1 rv1 stream1)"
      using False it by (subst fill_loop.simps) simp
    show ?thesis
    proof (cases "brk \<or> len1 = 0")
      case True
      have "fill_loop h1 ms1 0 rv1 stream1 = Some (h1, ms1, rv1, stream1)"
        by (subst fill_loop.simps) simp
      with True unfold have "fill_loop h ms len rv stream = Some (h1, ms1, rv1, stream1)" by auto
      with ok1 l1 rv1 s1 nd acc1 show ?thesis by auto
    next
      case False
      with dec have "pending ms1 as1 < pending ms as" by simp
      from less.hyps[OF this ok1 l1(1), of rv1 stream1]
      obtain h' ms' rv' stream' as' where
        r: "fill_loop h1 ms1 len1 rv1 stream1 = Some (h', ms', rv', stream')"
           "pcm_ok h' ms' as'" "rv1 \<le> rv'" "rv' \<le> rv1 + len1"
           "int (length stream') = int (length stream1) + (rv' - rv1)"
           "needs_decode ms' = needs_decode ms1"
           "queue_accounting h1 ms1 as1 \<and> 4 dvd len1 \<and> 4 dvd audio_out_index ms1 \<longrightarrow>
              queue_accounting h' ms' as'" by blast
      with False unfold l1 rv1 s1 nd acc1 show ?thesis by auto
    qed
  qed
qed

text \<open>
  The clamp never applies: \<^verbatim>\<open>audio_duration\<close> is overwritten with 0 (line 658) before
  it is tested (line 660).
\<close>

lemma clamp_len_is_identity: "clamp_len ms len = (len, ms\<lparr>audio_duration := 0\<rparr>)"
  by (simp add: clamp_len_def)

text \<open>
  C7. A call of \<^verbatim>\<open>media_read_audio\<close> on a ready, well-formed state with a requested length
  \<open>len \<ge> 0\<close> returns; the returned \<open>rv\<close> satisfies \<open>0 \<le> rv \<le> len\<close> and is the number of
  bytes written to the caller's buffer; the condition variable is broadcast exactly when
  \<open>rv > 0\<close>, and then \<^verbatim>\<open>needs_decode\<close> is true at return; when \<open>rv = 0\<close>, \<^verbatim>\<open>needs_decode\<close>
  is what it was.
\<close>

theorem media_read_audio_result:
  assumes "pcm_ok h ms as" and "ready ms" and "0 \<le> len"
  shows "\<exists>rv stream h' ms' evs.
           media_read_audio h ms len = Some (rv, stream, h', ms', evs)
         \<and> 0 \<le> rv \<and> rv \<le> len \<and> int (length stream) = rv
         \<and> ((0 < rv) = (SDL_CondBroadcast \<in> set evs))
         \<and> (0 < rv \<longrightarrow> needs_decode ms')
         \<and> (rv = 0 \<longrightarrow> needs_decode ms' = needs_decode ms)"
proof -
  let ?ms0 = "ms\<lparr>audio_duration := 0\<rparr>"
  from assms(1) have ok0: "pcm_ok h ?ms0 as" by (simp add: pcm_ok_def split: option.splits)
  from fill_loop_ok[OF ok0 assms(3), of 0 "[]"]
  obtain h' ms' rv' stream' where
    r: "fill_loop h ?ms0 len 0 [] = Some (h', ms', rv', stream')"
       "0 \<le> rv'" "rv' \<le> len" "int (length stream') = rv'"
       "needs_decode ms' = needs_decode ms" by auto
  with assms(2) show ?thesis
    by (cases "rv' = 0") (simp_all add: media_read_audio_def clamp_len_is_identity)
qed

theorem media_read_audio_result_witness:
  "pcm_ok one_frame playing_state [0] \<and> ready playing_state \<and> (0::int) \<le> 6
   \<and> (\<exists>rv stream h' ms' evs.
           media_read_audio one_frame playing_state 6 = Some (rv, stream, h', ms', evs)
         \<and> 0 \<le> rv \<and> rv \<le> 6 \<and> int (length stream) = rv
         \<and> ((0 < rv) = (SDL_CondBroadcast \<in> set evs))
         \<and> (0 < rv \<longrightarrow> needs_decode ms')
         \<and> (rv = 0 \<longrightarrow> needs_decode ms' = needs_decode playing_state))"
proof -
  have ok: "pcm_ok one_frame playing_state [0]"
    by (simp add: pcm_ok_def queue_of_def frame_ok_def one_frame_def playing_state_def
        media_open_def BPS_def)
  have rd: "ready playing_state" by (simp add: playing_state_def)
  have len: "(0::int) \<le> 6" by simp
  from media_read_audio_result[OF ok rd len] ok rd len show ?thesis by blast
qed

text \<open>
  C1. \<^verbatim>\<open>media_read_audio\<close> on a handle whose \<^verbatim>\<open>audio_duration\<close> is 1 sample, with nothing
  read yet and a frame of 2 samples queued, asked for 8 bytes: it returns all 8 bytes,
  twice the 4 bytes that the duration allows, does not latch \<^verbatim>\<open>audio_finished\<close>, and
  leaves \<^verbatim>\<open>audio_duration\<close> at 0.
\<close>

theorem media_read_audio_ignores_duration:
  "audio_duration bounded_state = 1 \<and> audio_read_samples bounded_state = 0
   \<and> media_read_audio one_frame bounded_state 8 =
       Some (8, [1, 2, 3, 4, 5, 6, 7, 8], Map.empty,
             bounded_state\<lparr>audio_duration := 0, audio_read_samples := 2,
                            audio_queue := \<lparr>first = None, last_frame = None\<rparr>,
                            audio_queue_samples := 0, needs_decode := True\<rparr>,
             [SDL_LockMutex, SDL_CondBroadcast, SDL_UnlockMutex])"
  by (simp add: media_read_audio_def clamp_len_def bounded_state_def playing_state_def
      one_frame_def media_open_def fill_loop.simps fill_iteration_def dequeue_frame_def
      memcpy_def av_frame_free_def BPS_def signed_divide_int_def Let_def)

section \<open>The skip policy, case by case\<close>




section \<open>The accounting of queued samples\<close>

text \<open>
  The two branches of the skip policy that do not install the frame keep the accounting:
  the enqueueing branch adds the frame's samples, the dropping branch changes nothing.
\<close>

lemma skip_policy_keeps_accounting_unless_straddling:
  assumes f: "h a = Some f" and q: "queue_of h (audio_queue ms) as" and fresh: "a \<notin> set as"
    and out: "audio_out_frame ms \<noteq> Some a" and acc: "queue_accounting h ms as"
    and branch: "skip ms \<le> real_of_int pts * timebase
       \<or> real_of_int pts * timebase + real_of_int (nb_samples f) / real_of_int audio_sample_rate
            < skip ms"
    and run: "decode_audio_skip_policy audio_sample_rate timebase pts h ms (Some a) = Some (h', ms')"
  shows "queue_accounting h' ms' (if skip ms \<le> real_of_int pts * timebase then as @ [a] else as)"
proof (cases "skip ms \<le> real_of_int pts * timebase")
  case True
  let ?ms1 = "ms\<lparr>audio_queue_samples := audio_queue_samples ms + nb_samples f\<rparr>"
  from q have "queue_of h (audio_queue ?ms1) as" by simp
  from enqueue_frame_queue_of[OF this f fresh]
  obtain h1 fq1 where e: "enqueue_frame h (audio_queue ?ms1) (Some a) = Some (h1, fq1)"
    and d: "dom h1 = dom h"
    and keep: "\<forall>b g. h b = Some g \<longrightarrow>
                 (\<exists>g'. h1 b = Some g' \<and> nb_samples g' = nb_samples g \<and> data0 g' = data0 g)"
    by blast
  have same: "samples_at h1 b = samples_at h b" for b
  proof (cases "h b")
    case None
    with d have "h1 b = None" by (metis domIff)
    with None show ?thesis by (simp add: samples_at_def)
  next
    case (Some g)
    with keep obtain g' where "h1 b = Some g'" "nb_samples g' = nb_samples g" by blast
    with Some show ?thesis by (simp add: samples_at_def)
  qed
  then have same': "samples_at h1 = samples_at h" by (rule ext)
  from run True f e have "h' = h1" "ms' = ?ms1\<lparr>audio_queue := fq1\<rparr>"
    by (simp_all add: decode_audio_skip_policy_def Let_def)
  moreover from f have "samples_at h a = nb_samples f" by (simp add: samples_at_def)
  ultimately show ?thesis using acc True
    by (simp add: queue_accounting_def same' cong: option.case_cong)
next
  case False
  with branch run f have r: "h' = h(a := None)" "ms' = ms"
    by (simp_all add: decode_audio_skip_policy_def Let_def av_frame_free_def)
  from out have "samples_at (h(a := None)) b = samples_at h b" if "audio_out_frame ms = Some b" for b
    using that by (auto simp: samples_at_def)
  with acc False fresh r show ?thesis
    by (auto simp: queue_accounting_def samples_free_other split: option.splits)
qed

text \<open>
  So does a pull for a whole number of samples, on a state whose index is at a whole
  sample.
\<close>

lemma media_read_audio_keeps_accounting:
  assumes "pcm_ok h ms as" and "ready ms" and "0 \<le> len" and "4 dvd len"
    and "4 dvd audio_out_index ms" and "queue_accounting h ms as"
  shows "\<exists>rv stream h' ms' evs as'.
           media_read_audio h ms len = Some (rv, stream, h', ms', evs)
         \<and> pcm_ok h' ms' as' \<and> queue_accounting h' ms' as'"
proof -
  let ?ms0 = "ms\<lparr>audio_duration := 0\<rparr>"
  from assms(1) have ok0: "pcm_ok h ?ms0 as" by (simp add: pcm_ok_def split: option.splits)
  from assms(6) have acc0: "queue_accounting h ?ms0 as"
    by (simp add: queue_accounting_def cong: option.case_cong)
  from fill_loop_ok[OF ok0 assms(3), of 0 "[]"] acc0 assms(4,5)
  obtain h' ms' rv' stream' as' where
    r: "fill_loop h ?ms0 len 0 [] = Some (h', ms', rv', stream')"
       "pcm_ok h' ms' as'" "queue_accounting h' ms' as'" by auto
  then have "pcm_ok h' (ms'\<lparr>needs_decode := True\<rparr>) as'"
    "queue_accounting h' (ms'\<lparr>needs_decode := True\<rparr>) as'"
    by (simp_all add: pcm_ok_def queue_accounting_def cong: option.case_cong)
  with r assms(2) show ?thesis
    by (cases "rv' = 0") (auto simp: media_read_audio_def clamp_len_is_identity)
qed

text \<open>
  C3. The branch of the skip policy for a frame that straddles \<^verbatim>\<open>skip\<close> does not keep the
  accounting. One second of audio in one frame, starting at 0, with \<^verbatim>\<open>skip\<close> = 0.5: the
  state before is well formed and accounts for its (no) samples; the frame is installed
  with index 88200, so 22050 of its samples are still to be read, and
  \<^verbatim>\<open>audio_queue_samples\<close> stays 0.
\<close>

theorem skip_policy_straddle_breaks_accounting:
  "pcm_ok second_of_audio (skip_state (1 / 2)) []
   \<and> queue_accounting second_of_audio (skip_state (1 / 2)) []
   \<and> decode_audio_skip_policy 44100 (1 / 44100) 0 second_of_audio (skip_state (1 / 2)) (Some 0) =
        Some (second_of_audio,
              (skip_state (1 / 2))\<lparr>audio_out_frame := Some 0, audio_out_index := 88200\<rparr>)
   \<and> pcm_ok second_of_audio
        ((skip_state (1 / 2))\<lparr>audio_out_frame := Some 0, audio_out_index := 88200\<rparr>) []
   \<and> audio_queue_samples
        ((skip_state (1 / 2))\<lparr>audio_out_frame := Some 0, audio_out_index := 88200\<rparr>) = 0
   \<and> samples_at second_of_audio 0 - 88200 sdiv BPS = 22050
   \<and> \<not> queue_accounting second_of_audio
        ((skip_state (1 / 2))\<lparr>audio_out_frame := Some 0, audio_out_index := 88200\<rparr>) []"
  by (simp add: decode_audio_skip_policy_def second_of_audio_def skip_state_def media_open_def
      int_of_double_def BPS_def pcm_ok_def queue_of_def frame_ok_def samples_at_def
      queue_accounting_def signed_divide_int_def)

section \<open>Duration inference\<close>

text \<open>
  Whatever the container reports, the value kept is at most \<^verbatim>\<open>3600 * audio_sample_rate\<close>
  as an unsigned number: the test rejects every larger unsigned value.
\<close>

lemma infer_audio_duration_bound:
  assumes "method \<noteq> AVFMT_DURATION_FROM_BITRATE"
  shows "audio_duration (infer_audio_duration method ctx_duration audio_sample_rate ms)
           \<le> word_of_int (signed_take_bit 31 (3600 * audio_sample_rate))"
  using assms by (simp add: infer_audio_duration_def Let_def not_less)

text \<open>
  C5. Two durations that are out of the range of 0 to 3600 seconds and are kept all the
  same, at 44100 Hz. A container of 97392 seconds (27 hours) converts to 4294987200
  samples, more than 32 bits hold: the cast to \<^verbatim>\<open>unsigned int\<close> leaves 19904, less than
  half a second, which passes the test. A negative duration of -97390548662 microseconds
  converts to -4294923195 samples, which the cast turns into 44101.
\<close>

theorem infer_audio_duration_keeps_unreasonable:
  "97392000000 * 44100 sdiv AV_TIME_BASE = 4294987200
   \<and> (4294987200::int) > 3600 * 44100
   \<and> audio_duration
        (infer_audio_duration AVFMT_DURATION_FROM_PTS 97392000000 44100 (media_open ''a.ogg''))
      = 19904
   \<and> (- 97390548662) * 44100 sdiv AV_TIME_BASE = - 4294923195
   \<and> audio_duration
        (infer_audio_duration AVFMT_DURATION_FROM_PTS (- 97390548662) 44100 (media_open ''a.ogg''))
      = 44101"
  by (simp add: infer_audio_duration_def AV_TIME_BASE_def media_open_def Let_def
      signed_divide_int_def signed_take_bit_int_eq_self)

section \<open>Closing a handle\<close>

lemma linked_head_allocated: "linked h p (a # as) \<Longrightarrow> h a \<noteq> None"
  by (auto split: option.splits)

text \<open>Emptying a well-formed frame queue frees exactly its frames.\<close>

lemma free_frame_queue_ok:
  assumes "queue_of h fq as"
  shows "\<exists>fq'. free_frame_queue h fq = Some (h |` (- set as), fq') \<and> first fq' = None"
  using assms
proof (induction as arbitrary: h fq)
  case Nil
  then have "first fq = None" by (simp add: queue_of_def)
  moreover have "h |` UNIV = h" by (rule ext) simp
  ultimately show ?case
    by (subst free_frame_queue.simps) (simp add: dequeue_frame_def)
next
  case (Cons a as)
  from dequeue_frame_queue_of[OF Cons.prems]
  obtain fq1 where d: "dequeue_frame h fq = Some (Some a, fq1)" and q: "queue_of h fq1 as"
    by blast
  from Cons.prems have al: "h a \<noteq> None" and fresh: "a \<notin> set as"
    by (auto simp: queue_of_def split: option.splits)
  from q fresh have "queue_of (h(a := None)) fq1 as" by (simp add: queue_of_free_other)
  from Cons.IH[OF this] obtain fq' where
    r: "free_frame_queue (h(a := None)) fq1 = Some ((h(a := None)) |` (- set as), fq')"
       "first fq' = None" by blast
  have "(h(a := None)) |` (- set as) = h |` (- set (a # as))"
    by (rule ext) (simp add: restrict_map_def)
  with r d al show ?case
    by (subst free_frame_queue.simps) (simp add: av_frame_free_def)
qed

text \<open>
  \<^verbatim>\<open>deallocate\<close> on a well-formed state whose decoder has allocated no frame of its own
  (as before the decode thread has run) frees the queued frames and the one being read.
\<close>

lemma deallocate_ok:
  assumes "pcm_ok h ms as" "video_decode_frame ms = None" "audio_decode_frame ms = None"
  shows "deallocate h ms = Some (h |` (- (set as \<union> set_option (audio_out_frame ms))))"
proof (cases "audio_out_frame ms")
  case None
  from assms(1) have "queue_of h (audio_queue ms) as" by (simp add: pcm_ok_def)
  from free_frame_queue_ok[OF this] None assms(2,3) show ?thesis
    by (auto simp: deallocate_def av_frame_free_def)
next
  case (Some a)
  with assms(1) have q: "queue_of h (audio_queue ms) as" and fresh: "a \<notin> set as"
    and al: "h a \<noteq> None"
    by (auto simp: pcm_ok_def frame_ok_def split: option.splits)
  from q fresh have "queue_of (h(a := None)) (audio_queue ms) as"
    by (simp add: queue_of_free_other)
  from free_frame_queue_ok[OF this] obtain fq' where
    r: "free_frame_queue (h(a := None)) (audio_queue ms) = Some ((h(a := None)) |` (- set as), fq')"
    by blast
  have "(h(a := None)) |` (- set as) = h |` (- (set as \<union> {a}))"
    by (rule ext) (simp add: restrict_map_def)
  with r Some al assms(2,3) show ?thesis
    by (simp add: deallocate_def av_frame_free_def)
qed

text \<open>
  C8. \<^verbatim>\<open>media_close\<close> on a started handle returns the frames untouched and the state with
  \<^verbatim>\<open>quit\<close> set and no other field changed, after locking, one broadcast and unlocking:
  nothing is freed and there is no wait. On a handle that was never started (well formed,
  the decoder's own frames not allocated) it runs \<^verbatim>\<open>deallocate\<close>: no state is left, the
  frames the state pointed to are freed, and no call is made on the mutex or the
  condition variable.
\<close>

theorem media_close_effect:
  "(started ms \<longrightarrow>
      media_close h ms =
        Some (h, Some (ms\<lparr>quit := True\<rparr>), [SDL_LockMutex, SDL_CondBroadcast, SDL_UnlockMutex]))
   \<and> (\<not> started ms \<and> pcm_ok h ms as
        \<and> video_decode_frame ms = None \<and> audio_decode_frame ms = None \<longrightarrow>
      deallocate h ms = Some (h |` (- (set as \<union> set_option (audio_out_frame ms))))
      \<and> media_close h ms =
          Some (h |` (- (set as \<union> set_option (audio_out_frame ms))), None, []))"
  by (auto simp: media_close_def deallocate_ok)

theorem media_close_effect_witness:
  "started playing_state
   \<and> media_close one_frame playing_state =
        Some (one_frame, Some (playing_state\<lparr>quit := True\<rparr>),
              [SDL_LockMutex, SDL_CondBroadcast, SDL_UnlockMutex])
   \<and> \<not> started (playing_state\<lparr>started := False\<rparr>)
   \<and> pcm_ok one_frame (playing_state\<lparr>started := False\<rparr>) [0]
   \<and> video_decode_frame (playing_state\<lparr>started := False\<rparr>) = None
   \<and> audio_decode_frame (playing_state\<lparr>started := False\<rparr>) = None
   \<and> media_close one_frame (playing_state\<lparr>started := False\<rparr>) = Some (Map.empty, None, [])"
proof -
  let ?ms = "playing_state\<lparr>started := False\<rparr>"
  have s: "started playing_state" by (simp add: playing_state_def)
  have n: "\<not> started ?ms" by simp
  have ok: "pcm_ok one_frame ?ms [0]"
    by (simp add: pcm_ok_def queue_of_def frame_ok_def one_frame_def playing_state_def
        media_open_def BPS_def)
  have v: "video_decode_frame ?ms = None" "audio_decode_frame ?ms = None"
    "audio_out_frame ?ms = None"
    by (simp_all add: playing_state_def media_open_def)
  have e: "one_frame |` (- (set [0] \<union> set_option None)) = Map.empty"
    by (rule ext) (simp add: restrict_map_def one_frame_def)
  have a: "media_close one_frame playing_state =
        Some (one_frame, Some (playing_state\<lparr>quit := True\<rparr>),
              [SDL_LockMutex, SDL_CondBroadcast, SDL_UnlockMutex])"
    using media_close_effect[of playing_state one_frame, THEN conjunct1] s by simp
  have b: "media_close one_frame ?ms = Some (Map.empty, None, [])"
    using media_close_effect[of ?ms one_frame "[0]", THEN conjunct2] n ok v e by simp
  from s a n ok v b show ?thesis by blast
qed

section \<open>Starting a handle\<close>

text \<open>
  C10. \<^verbatim>\<open>media_start\<close> sets \<^verbatim>\<open>started\<close> when \<^verbatim>\<open>SDL_CreateThread\<close> returns a thread, and
  only then: when it returns none, the state is exactly what it was. So on a handle that
  was not started before, \<^verbatim>\<open>started\<close> is true afterwards if and only if the thread was
  created; and after a failed start \<^verbatim>\<open>media_close\<close> deallocates the state itself, with
  no broadcast to a thread that does not exist.
\<close>

theorem media_start_sets_started:
  "fst (media_start t ms) = (if t then ms\<lparr>started := True\<rparr> else ms)
   \<and> (\<not> started ms \<longrightarrow> started (fst (media_start t ms)) = t)
   \<and> (\<not> t \<and> \<not> started ms \<and> pcm_ok h ms as
        \<and> video_decode_frame ms = None \<and> audio_decode_frame ms = None \<longrightarrow>
      media_close h (fst (media_start t ms)) =
        Some (h |` (- (set as \<union> set_option (audio_out_frame ms))), None, []))"
  by (auto simp: media_start_def media_close_def deallocate_ok)

theorem media_start_sets_started_witness:
  "\<not> started (media_open ''a.ogg'')
   \<and> started (fst (media_start True (media_open ''a.ogg'')))
   \<and> fst (media_start False (media_open ''a.ogg'')) = media_open ''a.ogg''
   \<and> pcm_ok Map.empty (media_open ''a.ogg'') []
   \<and> video_decode_frame (media_open ''a.ogg'') = None
   \<and> audio_decode_frame (media_open ''a.ogg'') = None
   \<and> media_close Map.empty (fst (media_start False (media_open ''a.ogg''))) = Some (Map.empty, None, [])"
proof -
  let ?ms = "media_open ''a.ogg''"
  have n: "\<not> started ?ms" by (simp add: media_open_def)
  have ok: "pcm_ok Map.empty ?ms []" by (simp add: pcm_ok_def queue_of_def media_open_def)
  have v: "video_decode_frame ?ms = None" "audio_decode_frame ?ms = None"
    by (simp_all add: media_open_def)
  have a: "started (fst (media_start True ?ms))"
    using media_start_sets_started[of True ?ms, THEN conjunct2, THEN conjunct1] n by simp
  have b: "fst (media_start False ?ms) = ?ms"
    using media_start_sets_started[of False ?ms, THEN conjunct1] by simp
  have c: "media_close Map.empty (fst (media_start False ?ms)) = Some (Map.empty, None, [])"
    using media_start_sets_started[of False ?ms Map.empty "[]", THEN conjunct2, THEN conjunct2]
      n ok v by simp
  from n a b ok v c show ?thesis by blast
qed

section \<open>The \<^verbatim>\<open>ready\<close> flag is set once, announced, and never cleared\<close>

lemma fill_iteration_flags:
  assumes "fill_iteration h ms len rv stream = Some (brk, h1, ms1, len1, rv1, stream1)"
  shows "ready ms1 = ready ms \<and> quit ms1 = quit ms \<and> started ms1 = started ms
         \<and> needs_decode ms1 = needs_decode ms"
  using assms
  by (auto simp: fill_iteration_def Let_def split: if_splits option.splits bind_splits)

text \<open>
  The fill loop leaves the flags alone whenever it returns, well-formed state or not: by
  induction over the turns of the loop.
\<close>

lemma fill_loop_flags_aux:
  assumes "fill_loop h ms len rv stream = Some y"
  shows "ready (fst (snd y)) = ready ms \<and> quit (fst (snd y)) = quit ms
         \<and> started (fst (snd y)) = started ms \<and> needs_decode (fst (snd y)) = needs_decode ms"
  using assms
proof (induction rule: fill_loop.raw_induct[rotated 1, consumes 1])
  case (1 fill_loop h ms len rv stream y)
  show ?case
  proof (cases "len = 0")
    case True
    with 1(2) show ?thesis by auto
  next
    case False
    with 1(2) obtain brk h1 ms1 len1 rv1 stream1 where
      it: "fill_iteration h ms len rv stream = Some (brk, h1, ms1, len1, rv1, stream1)"
      and rest: "(if brk then Some (h1, ms1, rv1, stream1) else fill_loop h1 ms1 len1 rv1 stream1)
                  = Some y"
      by (auto split: bind_splits)
    from fill_iteration_flags[OF it] rest 1(1)[of h1 ms1 len1 rv1 stream1 y]
    show ?thesis by (cases brk) auto
  qed
qed

lemma media_read_audio_flags:
  assumes "media_read_audio h ms len = Some (rv, stream, h', ms', evs)"
  shows "ready ms \<and> ready ms' \<and> quit ms' = quit ms \<and> started ms' = started ms"
  using assms
  by (auto simp: media_read_audio_def clamp_len_def split: if_splits bind_splits
      dest!: fill_loop_flags_aux)

lemma media_close_flags:
  assumes "media_close h ms = Some (h', Some ms', evs)"
  shows "ready ms' = ready ms \<and> SDL_CondBroadcast \<in> set evs"
  using assms by (auto simp: media_close_def split: if_splits bind_splits)

lemma setup_writes_flags:
  assumes "setup_writes ms ms'"
  shows "ready ms' = ready ms" "quit ms' = quit ms" "needs_decode ms' = needs_decode ms"
    "started ms' = started ms"
  using assms[unfolded setup_writes_def, THEN arg_cong, of ready]
    assms[unfolded setup_writes_def, THEN arg_cong, of quit]
    assms[unfolded setup_writes_def, THEN arg_cong, of needs_decode]
    assms[unfolded setup_writes_def, THEN arg_cong, of started]
  by simp_all

lemma decode_writes_flags:
  assumes "decode_writes ms ms'"
  shows "ready ms' = ready ms" "quit ms' = quit ms" "needs_decode ms' = needs_decode ms"
    "started ms' = started ms"
  using assms[unfolded decode_writes_def, THEN arg_cong, of ready]
    assms[unfolded decode_writes_def, THEN arg_cong, of quit]
    assms[unfolded decode_writes_def, THEN arg_cong, of needs_decode]
    assms[unfolded decode_writes_def, THEN arg_cong, of started]
  by simp_all

lemma wake_all_simps [simp]:
  "state (wake_all s) = state s" "ready_writes (wake_all s) = ready_writes s"
  "frames (wake_all s) = frames s" "freed (wake_all s) = freed s" "caller (wake_all s) = caller s"
  "announced (wake_all s) = (announced s \<or> ready (state s))"
  "consumer (wake_all s) \<noteq> Ready_wait"
  "decoder (wake_all s) = (case decoder s of Sync_wait \<Rightarrow> Sync_woken | Final_wait \<Rightarrow> Final_woken
                     | pc \<Rightarrow> pc)"
  by (auto simp: wake_all_def split: consumer_pc.splits)

text \<open>No step of any thread clears the flag.\<close>

lemma step_keeps_ready:
  assumes "step s s'" "ready (state s)"
  shows "ready (state s')"
  using assms
  by (induction rule: step.induct)
     (auto simp: media_start_def signal_ready_def signalled_def setup_writes_flags
        decode_writes_flags dest: media_close_flags media_read_audio_flags)

lemma ready_protocol_init: "ready_protocol (init name)"
  by (simp add: ready_protocol_def init_def media_open_def)

lemma ready_protocol_step:
  assumes "step s s'" "ready_protocol s"
  shows "ready_protocol s'"
  using assms
proof (induction rule: step.induct)
  case (close_quits s h' ms' evs)
  from media_close_flags[OF close_quits(3)] close_quits show ?case
    by (auto simp: ready_protocol_def signalled_def split: decoder_pc.splits)
next
  case (pull_returns s len rv stream h' ms' evs)
  from media_read_audio_flags[OF pull_returns(3)] pull_returns show ?case
    by (auto simp: ready_protocol_def signalled_def split: decoder_pc.splits)
qed (auto simp: ready_protocol_def media_start_def signal_ready_def setup_writes_flags
      decode_writes_flags split: decoder_pc.splits consumer_pc.splits if_splits)

lemma reachable_ready_protocol: "reachable s \<Longrightarrow> ready_protocol s"
  by (induction rule: reachable.induct) (auto intro: ready_protocol_init ready_protocol_step)

text \<open>
  C6. In every state that a handle can reach:
  \<^item> \<^verbatim>\<open>ready\<close> is set exactly when the decode thread has been through one of its two
    locked blocks, the one at the end of the loop body (lines 607-620) or the one on the
    exit path (lines 629-641): it is clear while the thread does not exist, during the
    set-up, and in the loop until the first locked block; it is set from then on, whether
    the set-up succeeded or failed;
  \<^item> the assignment \<^verbatim>\<open>ms->ready = 1\<close> has run exactly once if the flag is set, and never
    if it is clear;
  \<^item> no step of any thread clears the flag;
  \<^item> a step in which the decode thread leaves one of its locked blocks ends with the flag
    set and the broadcast made;
  \<^item> when the decode thread waits for \<^verbatim>\<open>quit\<close> on its exit path, or is beyond, the flag
    is set, the assignment has run exactly once, and the condition variable has been
    broadcast with the flag set;
  \<^item> when the flag is set, the consumer is not asleep in its wait for \<^verbatim>\<open>ready\<close>.
\<close>

theorem ready_set_once_and_announced:
  assumes "reachable s"
  shows "(ready (state s) = past_locked_block (decoder s))
       \<and> ready_writes s = (if ready (state s) then 1 else 0)
       \<and> (\<forall>s'. step s s' \<longrightarrow> ready (state s) \<longrightarrow> ready (state s'))
       \<and> (\<forall>s' b. step s s' \<longrightarrow> (decoder s = Sync b \<or> decoder s = Finish b) \<longrightarrow>
              decoder s' \<noteq> decoder s \<longrightarrow>
              ready (state s') \<and> ready_writes s' = 1 \<and> announced s')
       \<and> (decoder s \<in> {Final_wait, Final_woken, Dealloc, Dead} \<longrightarrow>
            ready (state s) \<and> ready_writes s = 1 \<and> announced s)
       \<and> (ready (state s) \<longrightarrow> consumer s \<noteq> Ready_wait)"
proof -
  note inv = reachable_ready_protocol[OF assms]
  have leave: "ready (state s') \<and> ready_writes s' = 1 \<and> announced s'"
    if st: "step s s'" and at: "decoder s = Sync b \<or> decoder s = Finish b"
      and mv: "decoder s' \<noteq> decoder s" for s' b
  proof -
    from ready_protocol_step[OF st inv] have inv': "ready_protocol s'" .
    from st at mv have "past_locked_block (decoder s')"
      by (induction rule: step.induct)
         (auto simp: signalled_def signal_ready_def split: if_splits decoder_pc.splits)
    with inv' show ?thesis by (auto simp: ready_protocol_def split: if_splits)
  qed
  from inv leave step_keeps_ready[of s] show ?thesis
    by (auto simp: ready_protocol_def split: if_splits)
qed

lemma run1_step: "step run0 run1"
  unfolding run1_def
  by (rule step.pull_waits) (simp_all add: run0_def init_def media_open_def)

lemma run2_step: "step run1 run2"
  unfolding run2_def
  by (rule step.create_thread) (simp_all add: run1_def run0_def init_def)

lemma run3_step: "step run2 run3"
proof -
  have "step run2 (run2\<lparr>state := state run2, decoder := Finish False\<rparr>)"
    by (rule step.discovery)
       (simp_all add: run2_def run1_def run0_def init_def setup_writes_def)
  then show ?thesis by (simp add: run3_def)
qed

lemma run4_step: "step run3 run4"
proof -
  have "step run3 ((signal_ready run3)\<lparr>decoder :=
          (if quit (state (signal_ready run3)) then Dealloc else Final_wait)\<rparr>)"
    by (rule step.exit_path[where b = False])
       (simp_all add: run3_def run2_def run1_def run0_def init_def)
  moreover have "(signal_ready run3)\<lparr>decoder :=
          (if quit (state (signal_ready run3)) then Dealloc else Final_wait)\<rparr> = run4"
    by (simp add: signal_ready_def wake_all_def run4_def run3_def run2_def run1_def run0_def
        init_def media_open_def)
  ultimately show ?thesis by simp
qed

lemma run5_step: "step run4 run5"
proof -
  have "step run4 (run4\<lparr>state := fst (media_start True (state run4)), caller := Started\<rparr>)"
    by (rule step.set_started) (simp_all add: run4_def)
  moreover have "run4\<lparr>state := fst (media_start True (state run4)), caller := Started\<rparr> = run5"
    by (simp add: run5_def run4_def media_start_def media_open_def)
  ultimately show ?thesis by simp
qed

lemma run2_reachable: "reachable run2"
proof -
  have "reachable run0" unfolding run0_def by (rule reachable.initially)
  then have "reachable run1" by (rule reachable.after) (rule run1_step)
  then show ?thesis by (rule reachable.after) (rule run2_step)
qed

lemma run4_reachable: "reachable run4"
proof -
  from run2_reachable have "reachable run3" by (rule reachable.after) (rule run3_step)
  then show ?thesis by (rule reachable.after) (rule run4_step)
qed

lemma loop3_step: "step run2 loop3"
proof -
  have "step run2 (run2\<lparr>state := state run2, decoder := Loop_test False\<rparr>)"
    by (rule step.discovery)
       (simp_all add: run2_def run1_def run0_def init_def setup_writes_def)
  then show ?thesis by (simp add: loop3_def)
qed

lemma loop4_step: "step loop3 loop4"
proof -
  have "step loop3 (loop3\<lparr>decoder :=
          (if quit (state loop3) then Finish False else Decode False)\<rparr>)"
    by (rule step.test_quit[where b = False])
       (simp_all add: loop3_def run2_def run1_def run0_def init_def)
  moreover have "loop3\<lparr>decoder := (if quit (state loop3) then Finish False else Decode False)\<rparr>
                 = loop4"
    by (simp add: loop4_def loop3_def run2_def run1_def run0_def init_def media_open_def)
  ultimately show ?thesis by simp
qed

lemma loop5_step: "step loop4 loop5"
proof -
  have "step loop4 (loop4\<lparr>frames := frames loop4, state := state loop4, decoder := Sync False\<rparr>)"
    by (rule step.decoding[where b = False])
       (simp_all add: loop4_def run2_def run1_def run0_def init_def decode_writes_def)
  then show ?thesis by (simp add: loop5_def loop4_def)
qed

lemma loop6_step: "step loop5 loop6"
proof -
  let ?s1 = "signal_ready loop5"
  have "step loop5 (if \<not> (needs_decode (state ?s1) \<or> quit (state ?s1))
             then ?s1\<lparr>decoder := Sync_wait\<rparr>
             else ?s1\<lparr>state := (state ?s1)\<lparr>needs_decode := False\<rparr>, decoder := Loop_test True\<rparr>)"
    by (rule step.synchronise[where b = False])
       (simp_all add: loop5_def run2_def run1_def run0_def init_def)
  moreover have "(if \<not> (needs_decode (state ?s1) \<or> quit (state ?s1))
             then ?s1\<lparr>decoder := Sync_wait\<rparr>
             else ?s1\<lparr>state := (state ?s1)\<lparr>needs_decode := False\<rparr>, decoder := Loop_test True\<rparr>)
          = loop6"
    by (simp add: signal_ready_def wake_all_def loop6_def loop5_def run2_def run1_def run0_def
        init_def media_open_def)
  ultimately show ?thesis by simp
qed

lemma loop5_reachable: "reachable loop5"
proof -
  from run2_reachable have "reachable loop3" by (rule reachable.after) (rule loop3_step)
  then have "reachable loop4" by (rule reachable.after) (rule loop4_step)
  then show ?thesis by (rule reachable.after) (rule loop5_step)
qed

lemma run3_reachable: "reachable run3"
  using run2_reachable by (rule reachable.after) (rule run3_step)

theorem ready_set_once_and_announced_witness:
  "reachable run0 \<and> decoder run0 = Not_created \<and> \<not> ready (state run0) \<and> ready_writes run0 = 0
   \<and> reachable loop5 \<and> decoder loop5 = Sync False \<and> \<not> ready (state loop5)
   \<and> ready_writes loop5 = 0
   \<and> step loop5 loop6 \<and> decoder loop6 = Sync_wait
   \<and> ready (state loop6) \<and> ready_writes loop6 = 1 \<and> announced loop6
   \<and> consumer loop6 \<noteq> Ready_wait
   \<and> reachable run3 \<and> decoder run3 = Finish False \<and> \<not> ready (state run3)
   \<and> step run3 run4 \<and> decoder run4 = Final_wait
   \<and> ready (state run4) \<and> ready_writes run4 = 1 \<and> announced run4
   \<and> consumer run4 \<noteq> Ready_wait
   \<and> reachable run4 \<and> step run4 run5 \<and> ready (state run5)"
proof -
  have r0: "reachable run0" unfolding run0_def by (rule reachable.initially)
  have d0: "decoder run0 = Not_created" by (simp add: run0_def init_def)
  have d3: "decoder run3 = Finish False" by (simp add: run3_def)
  have d4: "decoder run4 = Final_wait" by (simp add: run4_def)
  have l5: "decoder loop5 = Sync False" by (simp add: loop5_def)
  have l6: "decoder loop6 = Sync_wait" by (simp add: loop6_def)
  note t0 = ready_set_once_and_announced[OF r0]
  note t3 = ready_set_once_and_announced[OF run3_reachable]
  note t4 = ready_set_once_and_announced[OF run4_reachable]
  note t5 = ready_set_once_and_announced[OF loop5_reachable]
  from t0 d0 have a: "\<not> ready (state run0)" "ready_writes run0 = 0" by auto
  from t5 l5 have b: "\<not> ready (state loop5)" "ready_writes loop5 = 0" by auto
  have c: "ready (state loop6) \<and> ready_writes loop6 = 1 \<and> announced loop6"
  proof -
    from t5 have x: "step loop5 s' \<Longrightarrow> decoder loop5 = Sync b \<or> decoder loop5 = Finish b \<Longrightarrow>
        decoder s' \<noteq> decoder loop5 \<Longrightarrow>
        ready (state s') \<and> ready_writes s' = 1 \<and> announced s'" for s' b
      by blast
    show ?thesis using x[OF loop6_step, of False] l5 l6 by simp
  qed
  have c': "consumer loop6 \<noteq> Ready_wait" by (simp add: loop6_def)
  from t3 d3 have e: "\<not> ready (state run3)" by auto
  have f: "ready (state run4) \<and> ready_writes run4 = 1 \<and> announced run4"
  proof -
    from t3 have x: "step run3 s' \<Longrightarrow> decoder run3 = Sync b \<or> decoder run3 = Finish b \<Longrightarrow>
        decoder s' \<noteq> decoder run3 \<Longrightarrow>
        ready (state s') \<and> ready_writes s' = 1 \<and> announced s'" for s' b
      by blast
    show ?thesis using x[OF run4_step, of False] d3 d4 by simp
  qed
  from t4 f have g: "consumer run4 \<noteq> Ready_wait" by blast
  from t4 run5_step f have h: "ready (state run5)" by blast
  from r0 d0 a loop5_reachable l5 b loop6_step l6 c c' run3_reachable d3 e run4_step d4 f g
    run4_reachable run5_step h
  show ?thesis by blast
qed

end
